theory Spec2Isabelle
  imports Main "HOL-Library.Word"
begin

section \<open>Bytes, Python values and exceptions\<close>

text \<open>
  The development embeds \<^verbatim>\<open>inspect_architecture.py\<close>: the raw metadata reader
  \<^verbatim>\<open>inspect_gguf_raw\<close>, its caller \<^verbatim>\<open>inspect_gguf\<close> and the script's entry
  point. A file is the list of its bytes, and an open binary file object is the list of
  the bytes not yet read. A Python \<^verbatim>\<open>str\<close> is the list of its code points; a Python
  \<^verbatim>\<open>int\<close> is an \<open>int\<close>. Paths and messages are Python strings too. Text that is
  written in the script is a \<open>string\<close>, turned into code points by \<open>pystr_of\<close>.
\<close>

type_synonym byte = "8 word"
type_synonym stream = "byte list"
type_synonym pystr = "nat list"

definition pystr_of :: "string \<Rightarrow> pystr" where
  "pystr_of s = map of_char s"

text \<open>
  The exceptions that the modelled code can meet. \<open>StructError\<close> is \<^verbatim>\<open>struct.error\<close>
  (a buffer of the wrong size), \<open>OverflowError\<close> and \<open>MemoryError\<close> are what
  \<^verbatim>\<open>f.read(n)\<close> raises for a size it cannot serve, \<open>UnicodeEncodeError\<close> is what
  \<^verbatim>\<open>print\<close> raises for text that the standard output cannot encode. The message of
  the two errors of \<^verbatim>\<open>open\<close> ends with the \<^verbatim>\<open>repr\<close> of the path, and they carry the
  characters of the path that the \<^verbatim>\<open>repr\<close> shows as they are. \<open>ValueError\<close> and
  \<open>OtherError\<close> (any other subclass of \<^verbatim>\<open>Exception\<close>) come from the external library
  and carry its message.
\<close>

datatype py_error =
    StructError
  | UnicodeDecodeError
  | UnicodeEncodeError
  | OverflowError
  | MemoryError
  | FileNotFoundError pystr
  | OSError pystr
  | AttributeError
  | IndexError
  | ValueError pystr
  | OtherError pystr

subsection \<open>\<^verbatim>\<open>struct.unpack\<close>\<close>

text \<open>The little-endian value of a byte string, least significant byte first.\<close>

fun le_int :: "byte list \<Rightarrow> int" where
  "le_int [] = 0"
| "le_int (b # bs) = uint b + 256 * le_int bs"

text \<open>
  \<^verbatim>\<open>struct.unpack("<I", b)[0]\<close> (\<open>n = 4\<close>) and \<^verbatim>\<open>struct.unpack("<Q", b)[0]\<close>
  (\<open>n = 8\<close>): the buffer must have exactly \<open>n\<close> bytes, and the result is unsigned.
\<close>

definition unpack_uint :: "nat \<Rightarrow> byte list \<Rightarrow> py_error + int" where
  "unpack_uint n b = (if length b = n then Inr (le_int b) else Inl StructError)"

text \<open>
  \<^verbatim>\<open>struct.unpack("<f", b)[0]\<close>. The IEEE single that Python widens to a float is
  represented by its 32 bits; the widening is exact, so two results are equal as
  singles iff their bits are.
\<close>

definition unpack_f32 :: "byte list \<Rightarrow> py_error + 32 word" where
  "unpack_f32 b = (if length b = 4 then Inr (word_of_int (le_int b)) else Inl StructError)"

text \<open>
  \<^verbatim>\<open>struct.unpack("?", b)[0]\<close>: one byte; as documented, any non-zero value is
  \<^verbatim>\<open>True\<close> (\<^verbatim>\<open>struct.pack\<close> writes 0 or 1 only).
\<close>

definition unpack_bool :: "byte list \<Rightarrow> py_error + bool" where
  "unpack_bool b = (case b of [x] \<Rightarrow> Inr (x \<noteq> 0) | _ \<Rightarrow> Inl StructError)"

subsection \<open>\<^verbatim>\<open>bytes.decode("utf-8", errors=...)\<close>\<close>

text \<open>
  The decoder of the Python runtime, on bytes read as numbers. It accepts exactly the
  well-formed sequences (shortest form, no surrogates, at most U+10FFFF). At an
  ill-formed sequence the strict handler raises; the \<^verbatim>\<open>replace\<close> handler emits one
  U+FFFD for the longest prefix that could still start a well-formed sequence (at least
  one byte) and resumes right after it. A sequence cut off by the end of the input is
  one error.
\<close>

datatype errors_mode = Strict | Replace

definition is_cont :: "nat \<Rightarrow> bool" where
  "is_cont b \<longleftrightarrow> 128 \<le> b \<and> b < 192"

definition u8_emit :: "nat \<Rightarrow> py_error + pystr \<Rightarrow> py_error + pystr" where
  "u8_emit c r = (case r of Inl e \<Rightarrow> Inl e | Inr cs \<Rightarrow> Inr (c # cs))"

definition u8_error :: "errors_mode \<Rightarrow> py_error + pystr \<Rightarrow> py_error + pystr" where
  "u8_error m r = (case m of Strict \<Rightarrow> Inl UnicodeDecodeError | Replace \<Rightarrow> u8_emit 65533 r)"

fun utf8_decode :: "errors_mode \<Rightarrow> nat list \<Rightarrow> py_error + pystr" where
  "utf8_decode m [] = Inr []"
| "utf8_decode m (b0 # bs) =
    (if b0 < 128 then u8_emit b0 (utf8_decode m bs)
     else if b0 < 194 then u8_error m (utf8_decode m bs)
     else if b0 < 224 then
       (case bs of
          [] \<Rightarrow> u8_error m (Inr [])
        | b1 # bs1 \<Rightarrow>
            if \<not> is_cont b1 then u8_error m (utf8_decode m bs)
            else u8_emit ((b0 mod 32) * 64 + b1 mod 64) (utf8_decode m bs1))
     else if b0 < 240 then
       (case bs of
          [] \<Rightarrow> u8_error m (Inr [])
        | b1 # bs1 \<Rightarrow>
            if \<not> is_cont b1 \<or> (if b1 < 160 then b0 = 224 else b0 = 237)
            then u8_error m (utf8_decode m bs)
            else (case bs1 of
                [] \<Rightarrow> u8_error m (Inr [])
              | b2 # bs2 \<Rightarrow>
                  if \<not> is_cont b2 then u8_error m (utf8_decode m bs1)
                  else u8_emit ((b0 mod 16) * 4096 + (b1 mod 64) * 64 + b2 mod 64)
                         (utf8_decode m bs2)))
     else if b0 < 245 then
       (case bs of
          [] \<Rightarrow> u8_error m (Inr [])
        | b1 # bs1 \<Rightarrow>
            if \<not> is_cont b1 \<or> (if b1 < 144 then b0 = 240 else b0 = 244)
            then u8_error m (utf8_decode m bs)
            else (case bs1 of
                [] \<Rightarrow> u8_error m (Inr [])
              | b2 # bs2 \<Rightarrow>
                  if \<not> is_cont b2 then u8_error m (utf8_decode m bs1)
                  else (case bs2 of
                      [] \<Rightarrow> u8_error m (Inr [])
                    | b3 # bs3 \<Rightarrow>
                        if \<not> is_cont b3 then u8_error m (utf8_decode m bs2)
                        else u8_emit ((b0 mod 8) * 262144 + (b1 mod 64) * 4096
                                        + (b2 mod 64) * 64 + b3 mod 64)
                               (utf8_decode m bs3))))
     else u8_error m (utf8_decode m bs))"

definition bytes_decode :: "errors_mode \<Rightarrow> byte list \<Rightarrow> py_error + pystr" where
  "bytes_decode m b = utf8_decode m (map unat b)"

subsection \<open>UTF-8, from its encoder\<close>

text \<open>
  What \<^verbatim>\<open>errors="replace"\<close> is expected to do is stated here without the decoder. A
  Unicode scalar value is a code point that is not a surrogate, and its UTF-8 form is
  one to four bytes.
\<close>

definition scalar_value :: "nat \<Rightarrow> bool" where
  "scalar_value c \<longleftrightarrow> c < 0x110000 \<and> \<not> (0xD800 \<le> c \<and> c < 0xE000)"

fun utf8_encode_cp :: "nat \<Rightarrow> nat list" where
  "utf8_encode_cp c =
     (if c < 0x80 then [c]
      else if c < 0x800 then [0xC0 + c div 64, 0x80 + c mod 64]
      else if c < 0x10000 then [0xE0 + c div 4096, 0x80 + c div 64 mod 64, 0x80 + c mod 64]
      else [0xF0 + c div 262144, 0x80 + c div 4096 mod 64, 0x80 + c div 64 mod 64,
            0x80 + c mod 64])"

definition utf8_encode :: "pystr \<Rightarrow> nat list" where
  "utf8_encode s = concat (map utf8_encode_cp s)"

text \<open>Bytes are UTF-8 when they are the encoding of some text of scalar values.\<close>

definition is_utf8 :: "byte list \<Rightarrow> bool" where
  "is_utf8 b \<longleftrightarrow> (\<exists>s. list_all scalar_value s \<and> map unat b = utf8_encode s)"

text \<open>
  An input starts with text when its first bytes are the encoding of a scalar value.
  Bytes could start a character when some encoding of a scalar value begins with them.
  Where an input does not start with text, the maximal subpart of the ill-formed
  sequence is the longest run of first bytes that could start a character, or the first
  byte alone if it could not.
\<close>

definition starts_text :: "nat list \<Rightarrow> bool" where
  "starts_text bs \<longleftrightarrow> (\<exists>c rest. scalar_value c \<and> bs = utf8_encode_cp c @ rest)"

definition could_start :: "nat list \<Rightarrow> bool" where
  "could_start p \<longleftrightarrow> (\<exists>c more. scalar_value c \<and> utf8_encode_cp c = p @ more)"

definition maximal_subpart :: "nat list \<Rightarrow> nat list \<Rightarrow> bool" where
  "maximal_subpart bad rest \<longleftrightarrow>
     (length bad = 1 \<or> could_start bad)
     \<and> (case rest of [] \<Rightarrow> True | r # rs \<Rightarrow> \<not> could_start (bad @ [r]))"

text \<open>
  \<open>replaces bs t\<close>: the text \<open>t\<close> is \<open>bs\<close> read from left to right, each encoded scalar
  value giving that value and each maximal subpart of an ill-formed sequence giving one
  U+FFFD.
\<close>

inductive replaces :: "nat list \<Rightarrow> pystr \<Rightarrow> bool" where
  at_end: "replaces [] []"
| at_char: "scalar_value c \<Longrightarrow> replaces rest t \<Longrightarrow> replaces (utf8_encode_cp c @ rest) (c # t)"
| at_error: "bad \<noteq> [] \<Longrightarrow> \<not> starts_text (bad @ rest) \<Longrightarrow> maximal_subpart bad rest
        \<Longrightarrow> replaces rest t \<Longrightarrow> replaces (bad @ rest) (65533 # t)"

text \<open>
  The well-formed byte sequences by their ranges (table 3-7 of the Unicode standard),
  with the code point of each; the second byte is the one whose range depends on the
  first. The table links the decoder to the encoder in the proofs.
\<close>

definition second_ok :: "nat \<Rightarrow> nat \<Rightarrow> bool" where
  "second_ok b0 b1 \<longleftrightarrow>
     is_cont b1 \<and> (b0 = 224 \<longrightarrow> 160 \<le> b1) \<and> (b0 = 237 \<longrightarrow> b1 < 160)
     \<and> (b0 = 240 \<longrightarrow> 144 \<le> b1) \<and> (b0 = 244 \<longrightarrow> b1 < 144)"

fun wf_cp :: "nat list \<Rightarrow> nat option" where
  "wf_cp [b0] = (if b0 < 128 then Some b0 else None)"
| "wf_cp [b0, b1] =
     (if 194 \<le> b0 \<and> b0 < 224 \<and> is_cont b1 then Some ((b0 mod 32) * 64 + b1 mod 64)
      else None)"
| "wf_cp [b0, b1, b2] =
     (if 224 \<le> b0 \<and> b0 < 240 \<and> is_cont b1 \<and> is_cont b2
         \<and> (b0 = 224 \<longrightarrow> 160 \<le> b1) \<and> (b0 = 237 \<longrightarrow> b1 < 160)
      then Some ((b0 mod 16) * 4096 + (b1 mod 64) * 64 + b2 mod 64) else None)"
| "wf_cp [b0, b1, b2, b3] =
     (if 240 \<le> b0 \<and> b0 < 245 \<and> is_cont b1 \<and> is_cont b2 \<and> is_cont b3
         \<and> (b0 = 240 \<longrightarrow> 144 \<le> b1) \<and> (b0 = 244 \<longrightarrow> b1 < 144)
      then Some ((b0 mod 8) * 262144 + (b1 mod 64) * 4096 + (b2 mod 64) * 64 + b3 mod 64)
      else None)"
| "wf_cp bs = None"

section \<open>The raw metadata reader\<close>

subsection \<open>Reading from the open file\<close>

text \<open>
  A read takes the rest of the file and returns a value or an exception, with the rest
  after it: the position stays where the last \<^verbatim>\<open>f.read\<close> left it when a later step of
  the same statement raises.
\<close>

type_synonym 'a reading = "stream \<Rightarrow> (py_error + 'a) \<times> stream"

definition then_do :: "'a reading \<Rightarrow> ('a \<Rightarrow> 'b reading) \<Rightarrow> 'b reading" where
  "then_do m k f = (case m f of (Inl e, f') \<Rightarrow> (Inl e, f') | (Inr x, f') \<Rightarrow> k x f')"

definition lift :: "py_error + 'a \<Rightarrow> 'a reading" where
  "lift r f = (r, f)"

text \<open>
  \<^verbatim>\<open>f.read(n)\<close> for the literal sizes 1, 4 and 8 of the script: up to \<open>n\<close> bytes,
  fewer at the end of the file, none after it.
\<close>

definition f_read :: "nat \<Rightarrow> byte list reading" where
  "f_read n f = (Inr (take n f), drop n f)"

text \<open>
  \<^verbatim>\<open>f.read(n)\<close> for a size taken from the file, on 64-bit CPython. The buffered reader
  allocates a \<^verbatim>\<open>bytes\<close> object of the whole size before it reads. A \<^verbatim>\<open>bytes\<close> object
  has a header of 33 bytes and its total size is a signed 64-bit number, so a size above
  \<open>2^63 - 34\<close> is an \<^verbatim>\<open>OverflowError\<close> (as is one that is no signed 64-bit number at
  all); \<open>cap\<close> is the largest size the runtime has memory for, and a size above it is a
  \<^verbatim>\<open>MemoryError\<close>. A size within both is served like a literal one.
\<close>

definition bytes_max :: int where
  "bytes_max = 2 ^ 63 - 34"

definition servable :: "nat \<Rightarrow> int \<Rightarrow> bool" where
  "servable cap n \<longleftrightarrow> n \<le> bytes_max \<and> n \<le> int cap"

definition f_read_len :: "nat \<Rightarrow> int \<Rightarrow> byte list reading" where
  "f_read_len cap n f =
     (if bytes_max < n then (Inl OverflowError, f)
      else if int cap < n then (Inl MemoryError, f)
      else (Inr (take (nat n) f), drop (nat n) f))"

definition read_uint :: "nat \<Rightarrow> int reading" where
  "read_uint n = then_do (f_read n) (\<lambda>b. lift (unpack_uint n b))"

subsection \<open>What the reader prints\<close>

datatype gvalue = VStr pystr | VInt int | VFloat "32 word" | VBool bool

text \<open>A library array: its raw bytes and its items.\<close>

record ndarray =
  tobytes :: "byte list"
  items :: "int list"

record reader_tensor =
  tensor_name :: pystr
  shape :: "nat list"
  tensor_type :: int

text \<open>One constructor for each \<^verbatim>\<open>print\<close> of the script, with the values it formats.\<close>

datatype line =
    BadMagicLine
  | RawModeBanner
  | VersionLine int
  | TensorCountLine int
  | KVCountLine int
  | MetadataBanner
  | PairLine pystr gvalue
  | ArrayStopLine pystr int int
  | UnknownStopLine pystr int
  | ParseErrorLine py_error
  | InspectingLine pystr
  | QuantTypeErrorLine
  | AttemptPatchLine
  | FallingBackLine
  | CouldNotPatchLine py_error
  | ErrorReadingLine py_error
  | ArchBanner
  | ArchitectureLine pystr
  | LayersLine int
  | NoLayerCountLine
  | First20Banner
  | FieldLine pystr ndarray
  | TensorBanner
  | TensorLine reader_tensor
  | NoArgumentLine pystr
  | FileNotFoundLine pystr
  | HintLine

subsection \<open>Printing\<close>

text \<open>
  \<^verbatim>\<open>print\<close> encodes the whole line for the standard output before it writes, and raises
  \<^verbatim>\<open>UnicodeEncodeError\<close> when a character has no encoding there. The output is given by
  the set \<open>enc\<close> of the code points above ASCII that it encodes (all scalar values for
  UTF-8, those below 256 for Latin-1, none for ASCII); ASCII itself always prints, and
  with it the fixed text of every line, the numbers, and the messages of the
  interpreter's own exceptions, which escape what is not ASCII.
\<close>

definition encodable :: "(nat \<Rightarrow> bool) \<Rightarrow> pystr \<Rightarrow> bool" where
  "encodable enc s \<longleftrightarrow> list_all (\<lambda>c. c < 128 \<or> enc c) s"

text \<open>
  The \<^verbatim>\<open>repr\<close> of a string shows a character as it is when \<^verbatim>\<open>str.isprintable\<close> holds
  of it, and as an ASCII escape when not (a lone surrogate is not printable).
\<close>

definition repr_shown :: "(nat \<Rightarrow> bool) \<Rightarrow> pystr \<Rightarrow> pystr" where
  "repr_shown printable s = filter printable s"

text \<open>
  The text of an exception that may be more than ASCII: the message of a library
  exception, and what the message of \<^verbatim>\<open>open\<close> shows of the path.
\<close>

fun error_text :: "py_error \<Rightarrow> pystr" where
  "error_text (ValueError msg) = msg"
| "error_text (OtherError msg) = msg"
| "error_text (FileNotFoundError shown) = shown"
| "error_text (OSError shown) = shown"
| "error_text e = []"

text \<open>The text of a line that comes from the data.\<close>

fun line_text :: "line \<Rightarrow> pystr" where
  "line_text (PairLine key v) = key @ (case v of VStr s \<Rightarrow> s | _ \<Rightarrow> [])"
| "line_text (ArrayStopLine key arr_len arr_type) = key"
| "line_text (UnknownStopLine key val_type) = key"
| "line_text (ParseErrorLine e) = error_text e"
| "line_text (InspectingLine path) = path"
| "line_text (CouldNotPatchLine e) = error_text e"
| "line_text (ErrorReadingLine e) = error_text e"
| "line_text (ArchitectureLine arch) = arch"
| "line_text (FieldLine name a) = name"
| "line_text (TensorLine t) = tensor_name t"
| "line_text (NoArgumentLine path) = path"
| "line_text (FileNotFoundLine path) = path"
| "line_text ln = []"

definition can_print :: "(nat \<Rightarrow> bool) \<Rightarrow> line \<Rightarrow> bool" where
  "can_print enc ln \<longleftrightarrow> encodable enc (line_text ln)"

text \<open>
  A sequence of \<^verbatim>\<open>print\<close> statements outside any \<^verbatim>\<open>try\<close>: the lines that were
  printed, and the exception of the first that could not be.
\<close>

fun say :: "(nat \<Rightarrow> bool) \<Rightarrow> line list \<Rightarrow> line list \<times> py_error option" where
  "say enc [] = ([], None)"
| "say enc (ln # lns) =
     (if can_print enc ln
      then (case say enc lns of (out, exn) \<Rightarrow> (ln # out, exn))
      else ([], Some UnicodeEncodeError))"

text \<open>One part of the output after another; an exception ends it.\<close>

definition and_then ::
  "line list \<times> py_error option \<Rightarrow> line list \<times> py_error option \<Rightarrow> line list \<times> py_error option"
where
  "and_then a b =
     (case a of
        (out, Some e) \<Rightarrow> (out, Some e)
      | (out, None) \<Rightarrow> (case b of (out', exn) \<Rightarrow> (out @ out', exn)))"

subsection \<open>One key/value entry\<close>

text \<open>
  The body of the \<^verbatim>\<open>try\<close> in the loop of \<^verbatim>\<open>inspect_gguf_raw\<close>, in its three parts:
  the key, the value type and the value. \<open>Emit\<close> is the
  \<^verbatim>\<open>print\<close> that ends an iteration, \<open>Stop\<close> a \<^verbatim>\<open>print\<close> followed by \<^verbatim>\<open>break\<close>.
  Tags 4 and 5 share the format \<^verbatim>\<open>"<I"\<close>, tags 10 and 11 the format \<^verbatim>\<open>"<Q"\<close>.
\<close>

datatype step = Emit line | Stop line

definition read_key :: "nat \<Rightarrow> pystr reading" where
  "read_key cap =
     then_do (read_uint 8) (\<lambda>key_len.
     then_do (f_read_len cap key_len) (\<lambda>kb.
       lift (bytes_decode Strict kb)))"

definition read_value :: "nat \<Rightarrow> pystr \<Rightarrow> int \<Rightarrow> step reading" where
  "read_value cap key val_type =
     (if val_type = 8 then
        then_do (read_uint 8) (\<lambda>s_len.
        then_do (f_read_len cap s_len) (\<lambda>vb.
        then_do (lift (bytes_decode Replace vb)) (\<lambda>v.
          lift (Inr (Emit (PairLine key (VStr v)))))))
      else if val_type = 4 \<or> val_type = 5 then
        then_do (read_uint 4) (\<lambda>v. lift (Inr (Emit (PairLine key (VInt v)))))
      else if val_type = 10 \<or> val_type = 11 then
        then_do (read_uint 8) (\<lambda>v. lift (Inr (Emit (PairLine key (VInt v)))))
      else if val_type = 6 then
        then_do (f_read 4) (\<lambda>b.
        then_do (lift (unpack_f32 b)) (\<lambda>v.
          lift (Inr (Emit (PairLine key (VFloat v))))))
      else if val_type = 7 then
        then_do (f_read 1) (\<lambda>b.
        then_do (lift (unpack_bool b)) (\<lambda>v.
          lift (Inr (Emit (PairLine key (VBool v))))))
      else if val_type = 9 then
        then_do (read_uint 4) (\<lambda>arr_type.
        then_do (read_uint 8) (\<lambda>arr_len.
          lift (Inr (Stop (ArrayStopLine key arr_len arr_type)))))
      else lift (Inr (Stop (UnknownStopLine key val_type))))"

definition parse_kv :: "nat \<Rightarrow> step reading" where
  "parse_kv cap =
     then_do (read_key cap) (\<lambda>key.
     then_do (read_uint 4) (\<lambda>val_type.
       read_value cap key val_type))"

subsection \<open>The loop and the header\<close>

text \<open>
  \<^verbatim>\<open>for _ in range(kv_count)\<close>: an exception of the body is printed and ends the loop,
  as a \<^verbatim>\<open>break\<close> does. The three \<^verbatim>\<open>print\<close> statements that show a key are inside
  the \<^verbatim>\<open>try\<close>, so a line that cannot be printed is such an exception too; the line of
  the handler itself is ASCII.
\<close>

fun kv_loop :: "nat \<Rightarrow> (nat \<Rightarrow> bool) \<Rightarrow> nat \<Rightarrow> stream \<Rightarrow> line list \<times> stream" where
  "kv_loop cap enc 0 f = ([], f)"
| "kv_loop cap enc (Suc n) f =
     (case parse_kv cap f of
        (Inl e, f') \<Rightarrow> ([ParseErrorLine e], f')
      | (Inr (Stop ln), f') \<Rightarrow>
          ([if can_print enc ln then ln else ParseErrorLine UnicodeEncodeError], f')
      | (Inr (Emit ln), f') \<Rightarrow>
          if can_print enc ln
          then (case kv_loop cap enc n f' of (lns, f'') \<Rightarrow> (ln # lns, f''))
          else ([ParseErrorLine UnicodeEncodeError], f'))"

definition gguf_magic :: "byte list" where
  "gguf_magic = [0x47, 0x47, 0x55, 0x46]"

definition read_counts :: "(int \<times> int \<times> int) reading" where
  "read_counts =
     then_do (read_uint 4) (\<lambda>version.
     then_do (read_uint 8) (\<lambda>tensor_count.
     then_do (read_uint 8) (\<lambda>kv_count.
       lift (Inr (version, tensor_count, kv_count)))))"

text \<open>The five lines printed once the header is read.\<close>

definition header_lines :: "int \<Rightarrow> int \<Rightarrow> int \<Rightarrow> line list" where
  "header_lines version tensor_count kv_count =
     [RawModeBanner, VersionLine version, TensorCountLine tensor_count,
      KVCountLine kv_count, MetadataBanner]"

text \<open>
  The body of the \<^verbatim>\<open>with\<close> block: the lines printed, the exception that leaves the
  function (the three header fields are unpacked outside the \<^verbatim>\<open>try\<close>), and the rest
  of the file that was never read. The lines printed outside the loop are ASCII.
\<close>

definition raw_walk ::
  "nat \<Rightarrow> (nat \<Rightarrow> bool) \<Rightarrow> stream \<Rightarrow> (line list \<times> py_error option) \<times> stream"
where
  "raw_walk cap enc f =
     (case f_read 4 f of
        (Inl e, f1) \<Rightarrow> (([], Some e), f1)
      | (Inr magic, f1) \<Rightarrow>
          if magic \<noteq> gguf_magic then (([BadMagicLine], None), f1)
          else (case read_counts f1 of
              (Inl e, f2) \<Rightarrow> (([], Some e), f2)
            | (Inr (version, tensor_count, kv_count), f2) \<Rightarrow>
                (case kv_loop cap enc (nat kv_count) f2 of
                   (lns, f3) \<Rightarrow>
                     ((header_lines version tensor_count kv_count @ lns, None), f3))))"

subsection \<open>The file system and \<^verbatim>\<open>inspect_gguf_raw\<close>\<close>

text \<open>
  A path names nothing, a file that \<^verbatim>\<open>open(path, "rb")\<close> opens, or something that
  exists and that \<^verbatim>\<open>open\<close> refuses with an \<^verbatim>\<open>OSError\<close> (a directory, a file without
  read permission). The external library's \<^verbatim>\<open>GGUFReader(path)\<close> is a parameter: any
  function from paths to a reader or an exception. So are the memory for one read, the
  code points above ASCII that the standard output encodes, and \<^verbatim>\<open>str.isprintable\<close> on
  code points, which is a table of the runtime.
\<close>

datatype fnode = Readable stream | Unopenable

record reader_field =
  field_name :: pystr
  field_parts :: "ndarray list"

record gguf_reader =
  reader_fields :: "(pystr \<times> reader_field) list"
  reader_tensors :: "reader_tensor list"

record world =
  read_cap :: nat
  stdout_encodes :: "nat \<Rightarrow> bool"
  isprintable :: "nat \<Rightarrow> bool"
  fs :: "pystr \<Rightarrow> fnode option"
  GGUFReader :: "pystr \<Rightarrow> py_error + gguf_reader"

text \<open>
  The outcome of a call: what was printed, how many bytes \<^verbatim>\<open>f.read\<close> handed over, and
  the exception that left the function, if one did.
\<close>

record raw_result =
  printed :: "line list"
  bytes_read :: nat
  raised :: "py_error option"

text \<open>For the callers, also the paths handed to \<^verbatim>\<open>GGUFReader\<close> or \<^verbatim>\<open>open\<close>, in order.\<close>

record run = raw_result +
  opened :: "pystr list"

definition inspect_gguf_raw :: "world \<Rightarrow> pystr \<Rightarrow> raw_result" where
  "inspect_gguf_raw w path =
     (case fs w path of
        None \<Rightarrow>
          \<lparr>printed = [], bytes_read = 0,
           raised = Some (FileNotFoundError (repr_shown (isprintable w) path))\<rparr>
      | Some Unopenable \<Rightarrow>
          \<lparr>printed = [], bytes_read = 0,
           raised = Some (OSError (repr_shown (isprintable w) path))\<rparr>
      | Some (Readable content) \<Rightarrow>
          (case raw_walk (read_cap w) (stdout_encodes w) content of
             ((lns, exn), rest) \<Rightarrow>
               \<lparr>printed = lns, bytes_read = length content - length rest, raised = exn\<rparr>))"

section \<open>The library path and the entry point\<close>

subsection \<open>\<^verbatim>\<open>inspect_gguf\<close>\<close>

text \<open>\<^verbatim>\<open>needle in haystack\<close> on strings.\<close>

fun contains :: "pystr \<Rightarrow> pystr \<Rightarrow> bool" where
  "contains needle [] = (needle = [])"
| "contains needle (c # cs) =
     (take (length needle) (c # cs) = needle \<or> contains needle cs)"

definition is_quant_error :: "py_error \<Rightarrow> bool" where
  "is_quant_error e =
     (case e of
        ValueError msg \<Rightarrow> contains (pystr_of ''not a valid GGMLQuantizationType'') msg
      | _ \<Rightarrow> False)"

text \<open>
  \<^verbatim>\<open>reader.get_field(key)\<close> is \<^verbatim>\<open>None\<close> for a key the file does not have, and an
  attribute of \<^verbatim>\<open>None\<close> raises; \<^verbatim>\<open>parts[-1]\<close> raises on an empty list.
\<close>

definition get_field :: "gguf_reader \<Rightarrow> pystr \<Rightarrow> reader_field option" where
  "get_field reader key = map_of (reader_fields reader) key"

definition last_part :: "ndarray list \<Rightarrow> py_error + ndarray" where
  "last_part ps = (if ps = [] then Inl IndexError else Inr (last ps))"

definition architecture :: "gguf_reader \<Rightarrow> py_error + pystr" where
  "architecture reader =
     (case get_field reader (pystr_of ''general.architecture'') of
        None \<Rightarrow> Inl AttributeError
      | Some fld \<Rightarrow>
          (case last_part (field_parts fld) of
             Inl e \<Rightarrow> Inl e
           | Inr a \<Rightarrow> bytes_decode Strict (tobytes a)))"

text \<open>The layer count, inside its own \<^verbatim>\<open>try\<close> with a bare \<^verbatim>\<open>except\<close>.\<close>

definition layer_lines :: "gguf_reader \<Rightarrow> pystr \<Rightarrow> line list" where
  "layer_lines reader arch =
     (case get_field reader (arch @ pystr_of ''.block_count'') of
        None \<Rightarrow> []
      | Some block_count \<Rightarrow>
          (case last_part (field_parts block_count) of
             Inl e \<Rightarrow> [NoLayerCountLine]
           | Inr a \<Rightarrow> (case items a of [] \<Rightarrow> [NoLayerCountLine] | x # xs \<Rightarrow> [LayersLine x])))"

text \<open>
  The first twenty fields: the last part of a field without parts raises, and the name
  of a field may not print.
\<close>

fun print_fields ::
  "(nat \<Rightarrow> bool) \<Rightarrow> reader_field list \<Rightarrow> line list \<times> py_error option" where
  "print_fields enc [] = ([], None)"
| "print_fields enc (fld # flds) =
     (case last_part (field_parts fld) of
        Inl e \<Rightarrow> ([], Some e)
      | Inr a \<Rightarrow> and_then (say enc [FieldLine (field_name fld) a]) (print_fields enc flds))"

text \<open>
  The part of \<^verbatim>\<open>inspect_gguf\<close> after the reader was built, none of it inside a
  \<^verbatim>\<open>try\<close> but the layer count.
\<close>

definition show_reader :: "(nat \<Rightarrow> bool) \<Rightarrow> gguf_reader \<Rightarrow> line list \<times> py_error option" where
  "show_reader enc reader =
     and_then (say enc [ArchBanner])
       (case architecture reader of
          Inl e \<Rightarrow> ([], Some e)
        | Inr arch \<Rightarrow>
            and_then (say enc [ArchitectureLine arch])
           (and_then (say enc (layer_lines reader arch))
           (and_then (say enc [First20Banner])
           (and_then (print_fields enc (take 20 (map snd (reader_fields reader))))
           (and_then (say enc [TensorBanner])
                     (say enc (map TensorLine (take 10 (reader_tensors reader)))))))))"

text \<open>
  The fallback after the library's complaint about a quantization type: three lines,
  the raw reader, and the line of the handler around it if the raw reader raised.
\<close>

definition fall_back :: "world \<Rightarrow> pystr \<Rightarrow> raw_result" where
  "fall_back w model_path =
     (let r = inspect_gguf_raw w model_path;
          (out, exn) = (case raised r of
                          None \<Rightarrow> ([], None)
                        | Some x \<Rightarrow> say (stdout_encodes w) [CouldNotPatchLine x])
      in \<lparr>printed = [QuantTypeErrorLine, AttemptPatchLine, FallingBackLine] @ printed r @ out,
          bytes_read = bytes_read r, raised = exn\<rparr>)"

definition inspect_gguf :: "world \<Rightarrow> pystr \<Rightarrow> run" where
  "inspect_gguf w model_path =
     (if \<not> can_print (stdout_encodes w) (InspectingLine model_path) then
        \<lparr>printed = [], bytes_read = 0, raised = Some UnicodeEncodeError, opened = []\<rparr>
      else
        (case GGUFReader w model_path of
           Inl e \<Rightarrow>
             if is_quant_error e then
               (let r = fall_back w model_path in
                \<lparr>printed = InspectingLine model_path # printed r,
                 bytes_read = bytes_read r, raised = raised r,
                 opened = [model_path, model_path]\<rparr>)
             else
               (case say (stdout_encodes w) [ErrorReadingLine e] of
                  (out, exn) \<Rightarrow>
                    \<lparr>printed = InspectingLine model_path # out,
                     bytes_read = 0, raised = exn, opened = [model_path]\<rparr>)
         | Inr reader \<Rightarrow>
             (case show_reader (stdout_encodes w) reader of
                (out, exn) \<Rightarrow>
                  \<lparr>printed = InspectingLine model_path # out,
                   bytes_read = 0, raised = exn, opened = [model_path]\<rparr>)))"

subsection \<open>The entry point\<close>

definition default_path :: pystr where
  "default_path =
     pystr_of
       (foldr (\<lambda>d p. d @ CHR 0x5C # p)
          [''C:'', ''Users'', ''BassemMonla'', ''.lmstudio'', ''models'',
           ''lmstudio-community'', ''gpt-oss-20b-GGUF'']
          ''gpt-oss-20b-MXFP4.gguf'')"

text \<open>\<^verbatim>\<open>os.path.exists\<close>: true of files and of directories.\<close>

definition path_exists :: "world \<Rightarrow> pystr \<Rightarrow> bool" where
  "path_exists w p \<longleftrightarrow> fs w p \<noteq> None"

text \<open>The \<^verbatim>\<open>__main__\<close> block, on \<^verbatim>\<open>sys.argv\<close>; none of it is inside a \<^verbatim>\<open>try\<close>.\<close>

definition target_path :: "pystr list \<Rightarrow> pystr" where
  "target_path argv = (if length argv > 1 then argv ! 1 else default_path)"

definition notice :: "pystr list \<Rightarrow> line list" where
  "notice argv = (if length argv > 1 then [] else [NoArgumentLine default_path])"

definition main :: "world \<Rightarrow> pystr list \<Rightarrow> run" where
  "main w argv =
     (case say (stdout_encodes w) (notice argv) of
        (out, Some e) \<Rightarrow> \<lparr>printed = out, bytes_read = 0, raised = Some e, opened = []\<rparr>
      | (out, None) \<Rightarrow>
          if path_exists w (target_path argv) then
            (let r = inspect_gguf w (target_path argv) in r\<lparr>printed := out @ printed r\<rparr>)
          else
            (case say (stdout_encodes w) [FileNotFoundLine (target_path argv), HintLine] of
               (out', exn) \<Rightarrow>
                 \<lparr>printed = out @ out', bytes_read = 0, raised = exn, opened = []\<rparr>))"

section \<open>The documented layout, as a writer produces it\<close>

text \<open>
  \<^verbatim>\<open>struct.pack\<close> with the formats \<^verbatim>\<open>"<I"\<close>, \<^verbatim>\<open>"<i"\<close>, \<^verbatim>\<open>"<Q"\<close> and \<^verbatim>\<open>"<q"\<close>:
  \<open>n\<close> bytes, least significant first, two's complement for a negative value.
\<close>

fun le_bytes :: "nat \<Rightarrow> int \<Rightarrow> byte list" where
  "le_bytes 0 v = []"
| "le_bytes (Suc n) v = word_of_int (v mod 256) # le_bytes n (v div 256)"

definition gguf_header :: "int \<Rightarrow> int \<Rightarrow> int \<Rightarrow> stream" where
  "gguf_header version tensor_count kv_count =
     gguf_magic @ le_bytes 4 version @ le_bytes 8 tensor_count @ le_bytes 8 kv_count"

definition header_ok :: "int \<Rightarrow> int \<Rightarrow> int \<Rightarrow> bool" where
  "header_ok version tensor_count kv_count \<longleftrightarrow>
     0 \<le> version \<and> version < 2 ^ 32 \<and> 0 \<le> tensor_count \<and> tensor_count < 2 ^ 64
     \<and> 0 \<le> kv_count \<and> kv_count < 2 ^ 64"

definition enc_key :: "byte list \<Rightarrow> stream" where
  "enc_key kb = le_bytes 8 (int (length kb)) @ kb"

text \<open>
  A scalar entry on the wire: the key's bytes, the type tag and the payload (for a
  string, tag 8, the payload is the string's bytes and the wire carries their count
  first).
\<close>

datatype scalar_entry = Scalar (key_bytes: "byte list") (tag: int) (payload: "byte list")

definition enc_scalar :: "scalar_entry \<Rightarrow> stream" where
  "enc_scalar e =
     enc_key (key_bytes e) @ le_bytes 4 (tag e)
     @ (if tag e = 8 then le_bytes 8 (int (length (payload e))) else []) @ payload e"

text \<open>Valid UTF-8 is what the strict handler decodes without raising.\<close>

definition valid_utf8 :: "byte list \<Rightarrow> bool" where
  "valid_utf8 b \<longleftrightarrow> bytes_decode Strict b \<noteq> Inl UnicodeDecodeError"

definition key_ok :: "nat \<Rightarrow> byte list \<Rightarrow> bool" where
  "key_ok cap kb \<longleftrightarrow> servable cap (int (length kb)) \<and> valid_utf8 kb"

definition scalar_ok :: "nat \<Rightarrow> scalar_entry \<Rightarrow> bool" where
  "scalar_ok cap e \<longleftrightarrow>
     key_ok cap (key_bytes e) \<and>
     (if tag e = 8 then servable cap (int (length (payload e)))
      else if tag e = 4 \<or> tag e = 5 \<or> tag e = 6 then length (payload e) = 4
      else if tag e = 10 \<or> tag e = 11 then length (payload e) = 8
      else tag e = 7 \<and> length (payload e) = 1)"

text \<open>The text of a byte string under a handler; empty where the handler raises.\<close>

definition text_of :: "errors_mode \<Rightarrow> byte list \<Rightarrow> pystr" where
  "text_of m b = (case bytes_decode m b of Inr s \<Rightarrow> s | Inl e \<Rightarrow> [])"

text \<open>The value that the formats of \<open>parse_kv\<close> read from a payload.\<close>

definition value_of :: "int \<Rightarrow> byte list \<Rightarrow> gvalue" where
  "value_of t p =
     (if t = 8 then VStr (text_of Replace p)
      else if t = 6 then VFloat (word_of_int (le_int p))
      else if t = 7 then VBool (p \<noteq> [0])
      else VInt (le_int p))"

definition pair_line :: "scalar_entry \<Rightarrow> line" where
  "pair_line e = PairLine (text_of Strict (key_bytes e)) (value_of (tag e) (payload e))"

definition enc_scalars :: "scalar_entry list \<Rightarrow> stream" where
  "enc_scalars es = concat (map enc_scalar es)"

text \<open>Typed values, with their tags and the bytes a writer packs for them.\<close>

datatype gguf_value =
    U32 int | I32 int | F32 "32 word" | Bool bool | Str "byte list" | U64 int | I64 int

fun value_tag :: "gguf_value \<Rightarrow> int" where
  "value_tag (U32 v) = 4"
| "value_tag (I32 v) = 5"
| "value_tag (F32 x) = 6"
| "value_tag (Bool b) = 7"
| "value_tag (Str s) = 8"
| "value_tag (U64 v) = 10"
| "value_tag (I64 v) = 11"

fun value_payload :: "gguf_value \<Rightarrow> byte list" where
  "value_payload (U32 v) = le_bytes 4 v"
| "value_payload (I32 v) = le_bytes 4 v"
| "value_payload (F32 x) = le_bytes 4 (uint x)"
| "value_payload (Bool b) = [if b then 1 else 0]"
| "value_payload (Str s) = s"
| "value_payload (U64 v) = le_bytes 8 v"
| "value_payload (I64 v) = le_bytes 8 v"

definition entry :: "byte list \<Rightarrow> gguf_value \<Rightarrow> scalar_entry" where
  "entry kb v = Scalar kb (value_tag v) (value_payload v)"

text \<open>The value a writer put in, as Python would print it back.\<close>

fun original :: "gguf_value \<Rightarrow> gvalue" where
  "original (U32 v) = VInt v"
| "original (I32 v) = VInt v"
| "original (F32 x) = VFloat x"
| "original (Bool b) = VBool b"
| "original (Str s) = VStr (text_of Strict s)"
| "original (U64 v) = VInt v"
| "original (I64 v) = VInt v"

text \<open>
  The values of each type, and the values that do not have the sign bit set in a signed
  type.
\<close>

fun in_range :: "gguf_value \<Rightarrow> bool" where
  "in_range (U32 v) \<longleftrightarrow> 0 \<le> v \<and> v < 2 ^ 32"
| "in_range (I32 v) \<longleftrightarrow> - (2 ^ 31) \<le> v \<and> v < 2 ^ 31"
| "in_range (F32 x) \<longleftrightarrow> True"
| "in_range (Bool b) \<longleftrightarrow> True"
| "in_range (Str s) \<longleftrightarrow> valid_utf8 s"
| "in_range (U64 v) \<longleftrightarrow> 0 \<le> v \<and> v < 2 ^ 64"
| "in_range (I64 v) \<longleftrightarrow> - (2 ^ 63) \<le> v \<and> v < 2 ^ 63"

fun sign_clear :: "gguf_value \<Rightarrow> bool" where
  "sign_clear (I32 v) \<longleftrightarrow> 0 \<le> v"
| "sign_clear (I64 v) \<longleftrightarrow> 0 \<le> v"
| "sign_clear v \<longleftrightarrow> True"

text \<open>
  What a reader that decoded every value by its declared type would print for typed
  entries, in file order.
\<close>

definition expected_lines :: "(byte list \<times> gguf_value) list \<Rightarrow> line list" where
  "expected_lines kvs = map (\<lambda>(kb, v). PairLine (text_of Strict kb) (original v)) kvs"

text \<open>
  The exception of an entry whose key is cut off by the end of the file: the size may
  be refused, the bytes that are there may not decode, and otherwise the read of the
  type tag finds nothing.
\<close>

definition short_key_error :: "nat \<Rightarrow> int \<Rightarrow> byte list \<Rightarrow> py_error" where
  "short_key_error cap declared avail =
     (if bytes_max < declared then OverflowError
      else if int cap < declared then MemoryError
      else if valid_utf8 avail then StructError
      else UnicodeDecodeError)"

text \<open>The lines printed for an entry whose string value is cut off by the end of the file,
  and after it: the size may be refused, the text of the bytes that are there may not
  print, and otherwise the pair is printed and a further announced entry finds nothing.\<close>

definition short_value_lines ::
  "nat \<Rightarrow> (nat \<Rightarrow> bool) \<Rightarrow> bool \<Rightarrow> byte list \<Rightarrow> int \<Rightarrow> byte list \<Rightarrow> line list"
where
  "short_value_lines cap enc last_entry kb declared avail =
     (if bytes_max < declared then [ParseErrorLine OverflowError]
      else if int cap < declared then [ParseErrorLine MemoryError]
      else if \<not> can_print enc (PairLine (text_of Strict kb) (VStr (text_of Replace avail)))
        then [ParseErrorLine UnicodeEncodeError]
      else PairLine (text_of Strict kb) (VStr (text_of Replace avail))
             # (if last_entry then [] else [ParseErrorLine StructError]))"

text \<open>
  \<^verbatim>\<open>str.isprintable\<close> on the code points below 256. The sample worlds are given this
  table; every path in them is ASCII.
\<close>

definition printable_latin1 :: "nat \<Rightarrow> bool" where
  "printable_latin1 c \<longleftrightarrow> (32 \<le> c \<and> c < 127) \<or> (161 \<le> c \<and> c < 256 \<and> c \<noteq> 173)"

text \<open>
  A world with one file, a megabyte of memory for a read, a standard output in UTF-8
  and a given library; the same world with a standard output in Latin-1; and the
  library outcome that sends \<^verbatim>\<open>inspect_gguf\<close> to the raw reader.
\<close>

definition world_with ::
  "string \<Rightarrow> stream \<Rightarrow> (pystr \<Rightarrow> py_error + gguf_reader) \<Rightarrow> world" where
  "world_with path content lib =
     \<lparr>read_cap = 2 ^ 20, stdout_encodes = scalar_value, isprintable = printable_latin1,
      fs = (\<lambda>p. if p = pystr_of path then Some (Readable content) else None),
      GGUFReader = lib\<rparr>"

definition latin1 :: "world \<Rightarrow> world" where
  "latin1 w = w\<lparr>stdout_encodes := (\<lambda>c. c < 256)\<rparr>"

definition unknown_quant :: "pystr \<Rightarrow> py_error + gguf_reader" where
  "unknown_quant p = Inl (ValueError (pystr_of ''39 is not a valid GGMLQuantizationType''))"

text \<open>
  The two handlers of the decoder side by side: they return the same text, or the
  strict one raises and the other one's text has a U+FFFD.
\<close>

definition agree :: "py_error + pystr \<Rightarrow> py_error + pystr \<Rightarrow> bool" where
  "agree x y \<longleftrightarrow>
     (\<exists>s. x = Inr s \<and> y = Inr s) \<or>
     (x = Inl UnicodeDecodeError \<and> (\<exists>s. y = Inr s \<and> 65533 \<in> set s))"

section \<open>Sample files\<close>

text \<open>
  Small files for the concrete runs below. Keys are single ASCII letters, given by their
  byte (\<open>97\<close> is \<^verbatim>\<open>a\<close>). Each file is alone in its world, under the name it is
  inspected by.
\<close>



text \<open>The same start, then an entry whose one-byte key is \<open>0xFF\<close>.\<close>

definition bad_key_file :: stream where
  "bad_key_file = gguf_header 3 0 2 @ enc_scalars [entry [97] (U32 7)]
     @ enc_key [255] @ [4, 0, 0, 0, 1, 0, 0, 0]"

text \<open>Seven bytes that start with \<^verbatim>\<open>GGML\<close>.\<close>

definition not_gguf_file :: stream where
  "not_gguf_file = [0x47, 0x47, 0x4D, 0x4C, 1, 2, 3]"

text \<open>
  Three entries, the second a string \<open>s\<close> with the bytes \<^verbatim>\<open>h\<close>, \<open>0xFF\<close>, \<^verbatim>\<open>i\<close>,
  and two bytes after the last entry.
\<close>

definition bad_string_file :: stream where
  "bad_string_file = gguf_header 3 0 3 @ enc_scalars [entry [97] (U32 7)]
     @ enc_scalar (Scalar [115] 8 [104, 255, 105]) @ enc_scalars [entry [98] (Bool True)]
     @ [9, 9]"

text \<open>Well-formed files with a negative signed value.\<close>

definition signed_file :: stream where
  "signed_file = gguf_header 3 0 2 @ enc_scalars [entry [97] (U32 7), entry [98] (I32 (- 1))]"

definition int64_file :: stream where
  "int64_file = gguf_header 3 0 1 @ enc_scalars [entry [107] (I64 (- 2))]"

text \<open>
  Files that end early: a key that announces five bytes and has two, and a string value
  that does the same under the key \<open>k\<close>.
\<close>

definition short_key_file :: stream where
  "short_key_file = gguf_header 3 0 1 @ enc_scalars [] @ le_bytes 8 5 @ [97, 98]"

definition short_value_file :: stream where
  "short_value_file = gguf_header 3 0 2 @ enc_scalars []
     @ enc_key [107] @ le_bytes 4 8 @ le_bytes 8 5 @ [97, 98]"

text \<open>
  String values cut off by the end of the file under the key \<open>k\<close>: one that announces
  \<open>2^63 - 33\<close> bytes, one that announces two megabytes, and one whose two bytes are
  \<^verbatim>\<open>a\<close> and \<open>0xFF\<close>.
\<close>

definition huge_value_file :: stream where
  "huge_value_file = gguf_header 3 0 1 @ enc_scalars []
     @ enc_key [107] @ le_bytes 4 8 @ le_bytes 8 (2 ^ 63 - 33) @ [97, 98]"

definition big_value_file :: stream where
  "big_value_file = gguf_header 3 0 1 @ enc_scalars []
     @ enc_key [107] @ le_bytes 4 8 @ le_bytes 8 (2 ^ 21) @ [97, 98]"

definition short_bad_value_file :: stream where
  "short_bad_value_file = gguf_header 3 0 1 @ enc_scalars []
     @ enc_key [107] @ le_bytes 4 8 @ le_bytes 8 5 @ [97, 255]"

text \<open>
  The command-line argument of the single byte \<open>0xFF\<close> as Python hands it over where
  the file system encoding is UTF-8: the lone surrogate U+DCFF.
\<close>

definition surrogate_path :: pystr where
  "surrogate_path = [0xDCFF]"

text \<open>
  A file with no metadata entry, and the library's reader for it: the library lists the
  header's version as a field of its own, and there is no \<^verbatim>\<open>general.architecture\<close>.
\<close>

definition empty_model_file :: stream where
  "empty_model_file = gguf_header 3 0 0"

definition version_field :: reader_field where
  "version_field =
     \<lparr>field_name = pystr_of ''GGUF.version'',
      field_parts = [\<lparr>tobytes = [3, 0, 0, 0], items = [3]\<rparr>]\<rparr>"

definition reads_without_architecture :: "pystr \<Rightarrow> py_error + gguf_reader" where
  "reads_without_architecture p =
     Inr \<lparr>reader_fields = [(pystr_of ''GGUF.version'', version_field)], reader_tensors = []\<rparr>"

section \<open>Properties of the primitives\<close>

subsection \<open>Little-endian integers\<close>

lemma length_le_bytes: "length (le_bytes n v) = n"
  by (induction n arbitrary: v) simp_all

lemma le_int_le_bytes: "le_int (le_bytes n v) = v mod 256 ^ n"
proof (induction n arbitrary: v)
  case 0
  show ?case by simp
next
  case (Suc n)
  have "uint (word_of_int (v mod 256) :: byte) = v mod 256"
    by (simp add: uint_word_of_int)
  then have "le_int (le_bytes (Suc n) v) = v mod 256 + 256 * ((v div 256) mod 256 ^ n)"
    using Suc.IH [of "v div 256"] by simp
  also have "\<dots> = v mod 256 ^ Suc n"
    using zmod_zmult2_eq [of "256 ^ n" v 256] by simp
  finally show ?case .
qed

lemma f_read_append: "length b = n \<Longrightarrow> f_read n (b @ f) = (Inr b, f)"
  by (simp add: f_read_def)

lemma read_uint_le_bytes:
  assumes "0 \<le> v" "v < 256 ^ n"
  shows "read_uint n (le_bytes n v @ f) = (Inr v, f)"
  using assms
  by (simp add: read_uint_def then_do_def f_read_append length_le_bytes lift_def
      unpack_uint_def le_int_le_bytes)

lemma f_read_len_append:
  "servable cap (int (length b)) \<Longrightarrow> f_read_len cap (int (length b)) (b @ f) = (Inr b, f)"
  by (simp add: f_read_len_def servable_def)

lemma servable_u64: "servable cap n \<Longrightarrow> n < 256 ^ 8"
  by (simp add: servable_def bytes_max_def)

subsection \<open>The decoder\<close>

lemma agree_nil: "agree (Inr []) (Inr [])"
  by (simp add: agree_def)

lemma agree_emit: "agree x y \<Longrightarrow> agree (u8_emit c x) (u8_emit c y)"
  by (auto simp: agree_def u8_emit_def)

lemma agree_error: "agree x y \<Longrightarrow> agree (u8_error Strict x) (u8_error Replace y)"
  by (auto simp: agree_def u8_emit_def u8_error_def)

lemma utf8_agree: "agree (utf8_decode Strict bs) (utf8_decode Replace bs)"
proof (induction bs rule: length_induct)
  case (1 bs)
  have IH: "\<And>r. length r < length bs \<Longrightarrow> agree (utf8_decode Strict r) (utf8_decode Replace r)"
    using 1 by blast
  show ?case
  proof (cases bs)
    case Nil
    then show ?thesis by (simp add: agree_nil)
  next
    case (Cons b0 r)
    show ?thesis
      unfolding Cons utf8_decode.simps(2)
      using Cons
      by (auto simp del: utf8_decode.simps intro!: agree_emit agree_error agree_nil IH
          split: list.splits)
  qed
qed

lemma strict_cases:
  "(\<exists>s. bytes_decode Strict b = Inr s \<and> bytes_decode Replace b = Inr s) \<or>
   (bytes_decode Strict b = Inl UnicodeDecodeError \<and>
    (\<exists>s. bytes_decode Replace b = Inr s \<and> 65533 \<in> set s))"
  using utf8_agree [of "map unat b"] by (simp add: agree_def bytes_decode_def)

lemma replace_Inr: "bytes_decode Replace b = Inr (text_of Replace b)"
  using strict_cases [of b] by (auto simp: text_of_def)

lemma key_ok_Inr: "key_ok cap kb \<Longrightarrow> bytes_decode Strict kb = Inr (text_of Strict kb)"
  using strict_cases [of kb] by (auto simp: key_ok_def valid_utf8_def text_of_def)

subsection \<open>Reads at the head of the stream\<close>

lemma read_key_at:
  assumes "servable cap (int (length kb))"
  shows "read_key cap (enc_key kb @ f) = (bytes_decode Strict kb, f)"
proof -
  have "read_uint 8 (le_bytes 8 (int (length kb)) @ kb @ f) = (Inr (int (length kb)), kb @ f)"
    using servable_u64 [OF assms] by (intro read_uint_le_bytes) simp_all
  then show ?thesis
    by (simp add: read_key_def enc_key_def then_do_def f_read_len_append [OF assms] lift_def)
qed

lemma read_value_string:
  assumes sv: "servable cap (int (length p))"
  shows "read_value cap key 8 (le_bytes 8 (int (length p)) @ p @ f)
         = (Inr (Emit (PairLine key (VStr (text_of Replace p)))), f)"
proof -
  have 1: "read_uint 8 (le_bytes 8 (int (length p)) @ p @ f) = (Inr (int (length p)), p @ f)"
    using servable_u64 [OF sv] by (intro read_uint_le_bytes) simp_all
  have 2: "f_read_len cap (int (length p)) (p @ f) = (Inr p, f)"
    by (rule f_read_len_append [OF sv])
  have "read_value cap key 8 =
      then_do (read_uint 8) (\<lambda>s_len.
      then_do (f_read_len cap s_len) (\<lambda>vb.
      then_do (lift (bytes_decode Replace vb)) (\<lambda>v.
        lift (Inr (Emit (PairLine key (VStr v)))))))"
    by (simp add: read_value_def)
  then show ?thesis
    by (simp add: then_do_def 1 2 lift_def replace_Inr)
qed

lemma read_uint_at: "length p = n \<Longrightarrow> read_uint n (p @ f) = (Inr (le_int p), f)"
  by (simp add: read_uint_def then_do_def f_read_def lift_def unpack_uint_def)

lemma read_value_u32:
  assumes "t = 4 \<or> t = 5" "length p = 4"
  shows "read_value cap key t (p @ f) = (Inr (Emit (PairLine key (VInt (le_int p)))), f)"
proof -
  have "read_value cap key t =
      then_do (read_uint 4) (\<lambda>v. lift (Inr (Emit (PairLine key (VInt v)))))"
    using assms(1) by (auto simp: read_value_def)
  then show ?thesis
    by (simp add: then_do_def read_uint_at [OF assms(2)] lift_def)
qed

lemma read_value_u64:
  assumes "t = 10 \<or> t = 11" "length p = 8"
  shows "read_value cap key t (p @ f) = (Inr (Emit (PairLine key (VInt (le_int p)))), f)"
proof -
  have "read_value cap key t =
      then_do (read_uint 8) (\<lambda>v. lift (Inr (Emit (PairLine key (VInt v)))))"
    using assms(1) by (auto simp: read_value_def)
  then show ?thesis
    by (simp add: then_do_def read_uint_at [OF assms(2)] lift_def)
qed

lemma read_value_f32:
  assumes "length p = 4"
  shows "read_value cap key 6 (p @ f)
         = (Inr (Emit (PairLine key (VFloat (word_of_int (le_int p))))), f)"
proof -
  have "read_value cap key 6 =
      then_do (f_read 4) (\<lambda>b.
      then_do (lift (unpack_f32 b)) (\<lambda>v.
        lift (Inr (Emit (PairLine key (VFloat v))))))"
    by (simp add: read_value_def)
  then show ?thesis
    using assms by (simp add: then_do_def f_read_def lift_def unpack_f32_def)
qed

lemma read_value_bool:
  "read_value cap key 7 (x # f) = (Inr (Emit (PairLine key (VBool (x \<noteq> 0)))), f)"
proof -
  have "read_value cap key 7 =
      then_do (f_read 1) (\<lambda>b.
      then_do (lift (unpack_bool b)) (\<lambda>v.
        lift (Inr (Emit (PairLine key (VBool v))))))"
    by (simp add: read_value_def)
  then show ?thesis
    by (simp add: then_do_def f_read_def lift_def unpack_bool_def)
qed

lemma scalar_cases:
  assumes "if t = 8 then servable cap (int (length p))
      else if t = 4 \<or> t = 5 \<or> t = 6 then length p = 4
      else if t = 10 \<or> t = 11 then length p = 8
      else t = 7 \<and> length p = 1"
  shows "(t = 8 \<and> servable cap (int (length p))) \<or> ((t = 4 \<or> t = 5) \<and> length p = 4)
    \<or> (t = 6 \<and> length p = 4) \<or> ((t = 10 \<or> t = 11) \<and> length p = 8) \<or> (t = 7 \<and> length p = 1)"
  using assms by (auto split: if_splits)

lemma read_value_case_str:
  assumes "t = 8" "servable cap (int (length p))"
  shows "read_value cap key t
           ((if t = 8 then le_bytes 8 (int (length p)) else []) @ p @ f)
         = (Inr (Emit (PairLine key (value_of t p))), f)"
  using assms
      using read_value_string [of cap p key f] by (simp add: value_of_def)

lemma read_value_case_u32:
  assumes "t = 4 \<or> t = 5" "length p = 4"
  shows "read_value cap key t
           ((if t = 8 then le_bytes 8 (int (length p)) else []) @ p @ f)
         = (Inr (Emit (PairLine key (value_of t p))), f)"
  using assms
      using read_value_u32 [of t p cap key f] by (auto simp: value_of_def)

lemma read_value_case_f32:
  assumes "t = 6" "length p = 4"
  shows "read_value cap key t
           ((if t = 8 then le_bytes 8 (int (length p)) else []) @ p @ f)
         = (Inr (Emit (PairLine key (value_of t p))), f)"
  using assms
  using read_value_f32 [of p cap key f] by (simp add: value_of_def)

lemma read_value_case_u64:
  assumes "t = 10 \<or> t = 11" "length p = 8"
  shows "read_value cap key t
           ((if t = 8 then le_bytes 8 (int (length p)) else []) @ p @ f)
         = (Inr (Emit (PairLine key (value_of t p))), f)"
  using assms
  using read_value_u64 [of t p cap key f] by (auto simp: value_of_def)

lemma read_value_case_bool:
  assumes "t = 7" "length p = 1"
  shows "read_value cap key t
           ((if t = 8 then le_bytes 8 (int (length p)) else []) @ p @ f)
         = (Inr (Emit (PairLine key (value_of t p))), f)"
  using assms
proof -
  assume t: "t = 7" and "length p = 1"
  then obtain x where p: "p = [x]"
    by (cases p) simp_all
  show ?thesis
    unfolding t p using read_value_bool [of cap key x f] by (simp add: value_of_def)
qed

lemma read_value_scalar:
  assumes "if t = 8 then servable cap (int (length p))
      else if t = 4 \<or> t = 5 \<or> t = 6 then length p = 4
      else if t = 10 \<or> t = 11 then length p = 8
      else t = 7 \<and> length p = 1"
  shows "read_value cap key t ((if t = 8 then le_bytes 8 (int (length p)) else []) @ p @ f)
         = (Inr (Emit (PairLine key (value_of t p))), f)"
  using scalar_cases [OF assms] read_value_case_str [of t cap p key f] read_value_case_u32 [of t p cap key f] read_value_case_f32 [of t p cap key f]
    read_value_case_u64 [of t p cap key f] read_value_case_bool [of t p cap key f]
  by blast

lemma tag_range: "scalar_ok cap e \<Longrightarrow> 0 \<le> tag e \<and> tag e < 256 ^ 4"
  by (auto simp: scalar_ok_def split: if_splits)

lemma parse_kv_scalar:
  assumes "scalar_ok cap e"
  shows "parse_kv cap (enc_scalar e @ f) = (Inr (Emit (pair_line e)), f)"
proof -
  have k: "key_ok cap (key_bytes e)"
    using assms by (simp add: scalar_ok_def)
  then have sv: "servable cap (int (length (key_bytes e)))"
    by (simp add: key_ok_def)
  let ?v = "(if tag e = 8 then le_bytes 8 (int (length (payload e))) else []) @ payload e @ f"
  have 1: "read_key cap (enc_key (key_bytes e) @ le_bytes 4 (tag e) @ ?v)
      = (Inr (text_of Strict (key_bytes e)), le_bytes 4 (tag e) @ ?v)"
    by (simp only: read_key_at [OF sv] key_ok_Inr [OF k])
  have 2: "read_uint 4 (le_bytes 4 (tag e) @ ?v) = (Inr (tag e), ?v)"
    using tag_range [OF assms] by (intro read_uint_le_bytes) simp_all
  have 3: "read_value cap (text_of Strict (key_bytes e)) (tag e) ?v
      = (Inr (Emit (PairLine (text_of Strict (key_bytes e)) (value_of (tag e) (payload e)))), f)"
    using assms by (intro read_value_scalar) (simp add: scalar_ok_def)
  have eq: "enc_scalar e @ f = enc_key (key_bytes e) @ le_bytes 4 (tag e) @ ?v"
    by (simp add: enc_scalar_def)
  show ?thesis
    by (simp only: eq parse_kv_def then_do_def 1 2 3 prod.case sum.case pair_line_def)
qed

lemma kv_loop_scalars:
  assumes "list_all (scalar_ok cap) es" "list_all (can_print enc) (map pair_line es)"
  shows "kv_loop cap enc (length es + n) (enc_scalars es @ f)
         = (map pair_line es @ fst (kv_loop cap enc n f), snd (kv_loop cap enc n f))"
  using assms
proof (induction es)
  case Nil
  then show ?case by (simp add: enc_scalars_def)
next
  case (Cons e es)
  then have e: "scalar_ok cap e" "can_print enc (pair_line e)"
    and es: "list_all (scalar_ok cap) es" "list_all (can_print enc) (map pair_line es)"
    by simp_all
  have "enc_scalars (e # es) @ f = enc_scalar e @ enc_scalars es @ f"
    by (simp add: enc_scalars_def)
  then show ?case
    using parse_kv_scalar [OF e(1), of "enc_scalars es @ f"] e(2) Cons.IH [OF es]
    by simp
qed

lemma read_counts_header:
  assumes "header_ok v t k"
  shows "read_counts (le_bytes 4 v @ le_bytes 8 t @ le_bytes 8 k @ f) = (Inr (v, t, k), f)"
proof -
  have 1: "read_uint 4 (le_bytes 4 v @ le_bytes 8 t @ le_bytes 8 k @ f)
      = (Inr v, le_bytes 8 t @ le_bytes 8 k @ f)"
    using assms by (intro read_uint_le_bytes) (simp_all add: header_ok_def)
  have 2: "read_uint 8 (le_bytes 8 t @ le_bytes 8 k @ f) = (Inr t, le_bytes 8 k @ f)"
    using assms by (intro read_uint_le_bytes) (simp_all add: header_ok_def)
  have 3: "read_uint 8 (le_bytes 8 k @ f) = (Inr k, f)"
    using assms by (intro read_uint_le_bytes) (simp_all add: header_ok_def)
  show ?thesis
    by (simp add: read_counts_def then_do_def 1 2 3 lift_def)
qed

lemma raw_walk_header:
  assumes "header_ok v t k"
  shows "raw_walk cap enc (gguf_header v t k @ f)
         = ((header_lines v t k @ fst (kv_loop cap enc (nat k) f), None),
            snd (kv_loop cap enc (nat k) f))"
proof -
  have "f_read 4 (gguf_magic @ le_bytes 4 v @ le_bytes 8 t @ le_bytes 8 k @ f)
      = (Inr gguf_magic, le_bytes 4 v @ le_bytes 8 t @ le_bytes 8 k @ f)"
    by (intro f_read_append) (simp add: gguf_magic_def)
  then show ?thesis
    by (simp add: raw_walk_def gguf_header_def read_counts_header [OF assms]
        split: prod.splits)
qed

lemma inspect_raw_header:
  assumes "fs w path = Some (Readable (gguf_header v t k @ f))" "header_ok v t k"
  shows "inspect_gguf_raw w path =
     \<lparr>printed = header_lines v t k
                 @ fst (kv_loop (read_cap w) (stdout_encodes w) (nat k) f),
      bytes_read = length (gguf_header v t k @ f)
                 - length (snd (kv_loop (read_cap w) (stdout_encodes w) (nat k) f)),
      raised = None\<rparr>"
  using assms by (simp add: inspect_gguf_raw_def raw_walk_header)

lemma more_entries:
  assumes "int (length es) < k"
  obtains m where "nat k = length es + Suc m"
proof -
  have "nat k = length es + Suc (nat k - length es - 1)"
    using assms by linarith
  then show ?thesis ..
qed

text \<open>The line that ends the loop after an entry that is not printed as a pair.\<close>

lemma kv_loop_last:
  assumes "parse_kv cap x = (r, f')" "\<And>ln. r \<noteq> Inr (Emit ln)"
  shows "kv_loop cap enc (Suc m) x
     = ([case r of
           Inl e \<Rightarrow> ParseErrorLine e
         | Inr (Stop ln) \<Rightarrow> if can_print enc ln then ln else ParseErrorLine UnicodeEncodeError
         | Inr (Emit ln) \<Rightarrow> ln], f')"
  using assms by (cases r) (auto split: step.splits)

lemma kv_loop_after_scalars:
  assumes "list_all (scalar_ok cap) es" "list_all (can_print enc) (map pair_line es)"
    and "int (length es) < k"
    and "parse_kv cap x = (r, f')" "\<And>ln. r \<noteq> Inr (Emit ln)"
  shows "kv_loop cap enc (nat k) (enc_scalars es @ x)
     = (map pair_line es
        @ [case r of
             Inl e \<Rightarrow> ParseErrorLine e
           | Inr (Stop ln) \<Rightarrow> if can_print enc ln then ln else ParseErrorLine UnicodeEncodeError
           | Inr (Emit ln) \<Rightarrow> ln], f')"
proof -
  obtain m where m: "nat k = length es + Suc m"
    using assms(3) by (rule more_entries)
  show ?thesis
    by (simp only: m kv_loop_scalars [OF assms(1,2), of "Suc m" x]
        kv_loop_last [OF assms(4,5)] fst_conv snd_conv)
qed



lemma parse_kv_bad_key:
  assumes "servable cap (int (length kb))" "bytes_decode Strict kb = Inl UnicodeDecodeError"
  shows "parse_kv cap (enc_key kb @ f) = (Inl UnicodeDecodeError, f)"
  by (simp only: parse_kv_def then_do_def read_key_at [OF assms(1)] assms(2) prod.case sum.case)

subsection \<open>Writing a value and reading it back\<close>

text \<open>
  The formats of \<open>parse_kv\<close> give back every value of every type but the negative
  ones of the two signed types, which come back with \<open>2^32\<close> or \<open>2^64\<close> added.
\<close>

lemma le_int_le_bytes_id: "0 \<le> v \<Longrightarrow> v < 256 ^ n \<Longrightarrow> le_int (le_bytes n v) = v"
  by (simp add: le_int_le_bytes)

lemma valid_replace_same: "valid_utf8 b \<Longrightarrow> text_of Replace b = text_of Strict b"
  using strict_cases [of b] by (auto simp: valid_utf8_def text_of_def)

lemma round_trip_sign_clear:
  assumes "in_range v" "sign_clear v"
  shows "value_of (value_tag v) (value_payload v) = original v"
proof (cases v)
  case (F32 x)
  have "uint x < 2 ^ 32"
    using uint_bounded [of x] by simp
  then have "le_int (le_bytes 4 (uint x)) = uint x"
    by (intro le_int_le_bytes_id) simp_all
  then show ?thesis
    by (simp add: F32 value_of_def)
next
  case (Str s)
  then show ?thesis
    using assms by (simp add: value_of_def valid_replace_same)
qed (use assms in \<open>simp_all add: value_of_def le_int_le_bytes_id\<close>)

lemma negative_wraps:
  "- (2 ^ 31) \<le> v \<Longrightarrow> v < 0 \<Longrightarrow>
     value_of (value_tag (I32 v)) (value_payload (I32 v)) = VInt (v + 2 ^ 32)"
  "- (2 ^ 63) \<le> w \<Longrightarrow> w < 0 \<Longrightarrow>
     value_of (value_tag (I64 w)) (value_payload (I64 w)) = VInt (w + 2 ^ 64)"
proof -
  assume "- (2 ^ 31) \<le> v" "v < 0"
  then have "v mod 256 ^ 4 = v + 2 ^ 32"
    using mod_pos_pos_trivial [of "v + 2 ^ 32" "2 ^ 32"] mod_add_self2 [of v "2 ^ 32"] by simp
  then show "value_of (value_tag (I32 v)) (value_payload (I32 v)) = VInt (v + 2 ^ 32)"
    by (simp add: value_of_def le_int_le_bytes)
next
  assume "- (2 ^ 63) \<le> w" "w < 0"
  then have "w mod 256 ^ 8 = w + 2 ^ 64"
    using mod_pos_pos_trivial [of "w + 2 ^ 64" "2 ^ 64"] mod_add_self2 [of w "2 ^ 64"] by simp
  then show "value_of (value_tag (I64 w)) (value_payload (I64 w)) = VInt (w + 2 ^ 64)"
    by (simp add: value_of_def le_int_le_bytes)
qed

subsection \<open>Evaluating concrete files\<close>

lemma le_bytes_numeral:
  "le_bytes (numeral k) v = word_of_int (v mod 256) # le_bytes (pred_numeral k) (v div 256)"
  by (simp add: numeral_eq_Suc)

lemmas layout_defs = gguf_header_def gguf_magic_def enc_scalars_def enc_scalar_def enc_key_def
  entry_def le_bytes_numeral

lemmas check_defs = header_ok_def scalar_ok_def key_ok_def valid_utf8_def servable_def
  bytes_max_def bytes_decode_def u8_emit_def u8_error_def is_cont_def world_with_def

lemmas print_defs = header_lines_def pair_line_def value_of_def text_of_def bytes_decode_def
  u8_emit_def u8_error_def is_cont_def

lemma length_gguf_header: "length (gguf_header v t k) = 24"
  by (simp add: gguf_header_def gguf_magic_def length_le_bytes)

lemma length_enc_key: "length (enc_key kb) = 8 + length kb"
  by (simp add: enc_key_def length_le_bytes)

lemmas length_defs = length_gguf_header length_enc_key length_le_bytes enc_scalars_def
  enc_scalar_def entry_def

section \<open>UTF-8: the decoder against the encoder\<close>

subsection \<open>Six-bit groups\<close>

lemma cont_mod: "128 \<le> b \<Longrightarrow> b < 192 \<Longrightarrow> b mod 64 = b - (128::nat)"
  using mod_mult_self3 [of 2 64 "b - 128"] by simp

lemma lead2_mod: "192 \<le> b \<Longrightarrow> b < 224 \<Longrightarrow> b mod 32 = b - (192::nat)"
  using mod_mult_self3 [of 6 32 "b - 192"] by simp

lemma lead3_mod: "224 \<le> b \<Longrightarrow> b < 240 \<Longrightarrow> b mod 16 = b - (224::nat)"
  using mod_mult_self3 [of 14 16 "b - 224"] by simp

lemma lead4_mod: "240 \<le> b \<Longrightarrow> b < 248 \<Longrightarrow> b mod 8 = b - (240::nat)"
  using mod_mult_self3 [of 30 8 "b - 240"] by simp

text \<open>A code point from its six-bit groups, and back.\<close>

lemma groups2: 
  assumes "y < 64"
  shows "(x * 64 + y) div 64 = (x::nat)" "(x * 64 + y) mod 64 = y"
  using assms by simp_all

lemma groups3:
  assumes "y < 64" "z < 64"
  shows "(x * 4096 + y * 64 + z) div 4096 = (x::nat)"
    "(x * 4096 + y * 64 + z) div 64 mod 64 = y" "(x * 4096 + y * 64 + z) mod 64 = z"
proof -
  let ?c = "x * 4096 + y * 64 + z"
  have d: "?c div 64 = x * 64 + y"
    by (rule div_nat_eqI) (use assms in simp_all)
  show "?c div 64 mod 64 = y"
    using assms by (simp only: d groups2)
  show "?c mod 64 = z"
    using d minus_div_mult_eq_mod [of ?c 64] by simp
  show "?c div 4096 = x"
    by (rule div_nat_eqI) (use assms in simp_all)
qed

lemma groups4:
  assumes "y < 64" "z < 64" "u < 64"
  shows "(x * 262144 + y * 4096 + z * 64 + u) div 262144 = (x::nat)"
    "(x * 262144 + y * 4096 + z * 64 + u) div 4096 mod 64 = y"
    "(x * 262144 + y * 4096 + z * 64 + u) div 64 mod 64 = z"
    "(x * 262144 + y * 4096 + z * 64 + u) mod 64 = u"
proof -
  let ?c = "x * 262144 + y * 4096 + z * 64 + u"
  have d: "?c div 64 = x * 4096 + y * 64 + z"
    by (rule div_nat_eqI) (use assms in simp_all)
  show "?c div 64 mod 64 = z"
    using assms by (simp only: d groups3)
  show "?c mod 64 = u"
    using d minus_div_mult_eq_mod [of ?c 64] by simp
  have e: "?c div 4096 = x * 64 + y"
    by (rule div_nat_eqI) (use assms in simp_all)
  show "?c div 4096 mod 64 = y"
    using assms by (simp only: e groups2)
  show "?c div 262144 = x"
    by (rule div_nat_eqI) (use assms in simp_all)
qed

lemma split2: "(c::nat) = c div 64 * 64 + c mod 64"
  by simp

lemma split3: "(c::nat) = c div 4096 * 4096 + c div 64 mod 64 * 64 + c mod 64"
proof -
  define q r p m where "q = c div 64" and "r = c mod 64" and "p = c div 4096"
    and "m = c div 64 mod 64"
  have "q div 64 = p"
    by (simp add: q_def p_def div_mult2_eq [symmetric])
  then have "q = p * 64 + m"
    using split2 [of q] by (simp add: m_def q_def)
  moreover have "c = q * 64 + r"
    by (simp add: q_def r_def)
  ultimately have "c = p * 4096 + m * 64 + r"
    by simp
  then show ?thesis
    by (simp only: p_def m_def r_def)
qed

lemma split4:
  "(c::nat) = c div 262144 * 262144 + c div 4096 mod 64 * 4096 + c div 64 mod 64 * 64 + c mod 64"
proof -
  define q p m t where "q = c div 4096" and "p = c div 262144" and "m = c div 4096 mod 64"
    and "t = c div 64 mod 64 * 64 + c mod 64"
  have "q div 64 = p"
    by (simp add: q_def p_def div_mult2_eq [symmetric])
  then have "q = p * 64 + m"
    using split2 [of q] by (simp add: m_def q_def)
  moreover have "c = q * 4096 + t"
    using split3 [of c] by (simp add: q_def t_def)
  ultimately have "c = p * 262144 + m * 4096 + t"
    by simp
  then show ?thesis
    by (simp only: p_def m_def t_def add.assoc)
qed

lemma wf_encode: "scalar_value c \<Longrightarrow> wf_cp (utf8_encode_cp c) = Some c"
proof -
  assume s: "scalar_value c"
  consider "c < 128" | "128 \<le> c" "c < 2048" | "2048 \<le> c" "c < 65536" | "65536 \<le> c"
    by linarith
  then show ?thesis
  proof cases
    case 1
    then show ?thesis by simp
  next
    case 2
    define x y where "x = c div 64" and "y = c mod 64"
    have c: "c = x * 64 + y"
      by (simp add: x_def y_def)
    have b: "2 \<le> x" "x < 32" "y < 64"
      using 2 by (simp_all add: x_def y_def)
    have enc: "utf8_encode_cp c = [192 + x, 128 + y]"
      using 2 by (simp add: x_def y_def)
    have wf: "wf_cp [192 + x, 128 + y] = Some (x * 64 + y)"
      using b by (simp add: is_cont_def lead2_mod cont_mod)
    show ?thesis
      by (simp only: enc wf c [symmetric])
  next
    case 3
    define x y z where "x = c div 4096" and "y = c div 64 mod 64" and "z = c mod 64"
    have c: "c = x * 4096 + y * 64 + z"
      unfolding x_def y_def z_def by (rule split3)
    have b: "x < 16" "y < 64" "z < 64"
      using 3 by (simp_all add: x_def y_def z_def)
    have e0: "x = 0 \<Longrightarrow> 32 \<le> y"
      using 3 c b by simp
    have ed: "x = 13 \<Longrightarrow> y < 32"
      using s c b by (simp add: scalar_value_def)
    have enc: "utf8_encode_cp c = [224 + x, 128 + y, 128 + z]"
      using 3 by (simp add: x_def y_def z_def)
    have wf: "wf_cp [224 + x, 128 + y, 128 + z] = Some (x * 4096 + y * 64 + z)"
      using b e0 ed by (simp add: is_cont_def lead3_mod cont_mod)
    show ?thesis
      by (simp only: enc wf c [symmetric])
  next
    case 4
    define x y z u where "x = c div 262144" and "y = c div 4096 mod 64"
      and "z = c div 64 mod 64" and "u = c mod 64"
    have c: "c = x * 262144 + y * 4096 + z * 64 + u"
      unfolding x_def y_def z_def u_def by (rule split4)
    have b: "y < 64" "z < 64" "u < 64"
      by (simp_all add: y_def z_def u_def)
    have x: "x < 5"
      using s c b by (simp add: scalar_value_def)
    have e0: "x = 0 \<Longrightarrow> 16 \<le> y"
      using 4 c b by simp
    have e4: "x = 4 \<Longrightarrow> y < 16"
      using s c b by (simp add: scalar_value_def)
    have enc: "utf8_encode_cp c = [240 + x, 128 + y, 128 + z, 128 + u]"
      using 4 by (simp add: x_def y_def z_def u_def)
    have wf: "wf_cp [240 + x, 128 + y, 128 + z, 128 + u]
        = Some (x * 262144 + y * 4096 + z * 64 + u)"
      using b x e0 e4 by (simp add: is_cont_def lead4_mod cont_mod)
    show ?thesis
      by (simp only: enc wf c [symmetric])
  qed
qed

lemma encode_wf: "wf_cp bs = Some c \<Longrightarrow> scalar_value c \<and> utf8_encode_cp c = bs"
proof (induction bs rule: wf_cp.induct)
  case (1 b0)
  then show ?case
    by (auto simp: scalar_value_def split: if_splits)
next
  case (2 b0 b1)
  define x y where "x = b0 - 192" and "y = b1 - 128"
  from 2 have r: "194 \<le> b0" "b0 < 224" "128 \<le> b1" "b1 < 192"
    by (auto simp: is_cont_def split: if_splits)
  then have b: "b0 = 192 + x" "b1 = 128 + y" "2 \<le> x" "x < 32" "y < 64"
    by (simp_all add: x_def y_def)
  have c: "c = x * 64 + y"
    using 2 r by (simp add: is_cont_def lead2_mod cont_mod x_def y_def)
  have g: "c div 64 = x" "c mod 64 = y"
    unfolding c using b by (simp_all only: groups2)
  have "128 \<le> c" "c < 2048"
    using b by (simp_all add: c)
  then show ?case
    by (simp add: scalar_value_def g b)
next
  case (3 b0 b1 b2)
  define x y z where "x = b0 - 224" and "y = b1 - 128" and "z = b2 - 128"
  from 3 have r: "224 \<le> b0" "b0 < 240" "128 \<le> b1" "b1 < 192" "128 \<le> b2" "b2 < 192"
      "b0 = 224 \<longrightarrow> 160 \<le> b1" "b0 = 237 \<longrightarrow> b1 < 160"
    by (auto simp: is_cont_def split: if_splits)
  then have b: "b0 = 224 + x" "b1 = 128 + y" "b2 = 128 + z" "x < 16" "y < 64" "z < 64"
      "x = 0 \<longrightarrow> 32 \<le> y" "x = 13 \<longrightarrow> y < 32"
    by (auto simp: x_def y_def z_def)
  have c: "c = x * 4096 + y * 64 + z"
    using 3 r by (simp add: is_cont_def lead3_mod cont_mod x_def y_def z_def)
  have g: "c div 4096 = x" "c div 64 mod 64 = y" "c mod 64 = z"
    unfolding c using b by (simp_all only: groups3)
  have "2048 \<le> c" "c < 65536"
    using b by (auto simp: c)
  moreover have "\<not> (55296 \<le> c \<and> c < 57344)"
  proof -
    consider "x < 13" | "x = 13" | "13 < x"
      by linarith
    then show ?thesis
    proof cases
      case 1
      then have "x * 4096 \<le> 12 * 4096"
        by simp
      then show ?thesis
        using b(5,6) unfolding c by linarith
    next
      case 2
      then show ?thesis
        using b(5,6,8) unfolding c by simp
    next
      case 3
      then have "14 * 4096 \<le> x * 4096"
        by simp
      then show ?thesis
        unfolding c by linarith
    qed
  qed
  ultimately have "2048 \<le> c" "c < 65536" "\<not> (55296 \<le> c \<and> c < 57344)"
    by simp_all
  then show ?case
    by (simp add: scalar_value_def g b)
next
  case (4 b0 b1 b2 b3)
  define x y z u where "x = b0 - 240" and "y = b1 - 128" and "z = b2 - 128" and "u = b3 - 128"
  from 4 have r: "240 \<le> b0" "b0 < 245" "128 \<le> b1" "b1 < 192" "128 \<le> b2" "b2 < 192"
      "128 \<le> b3" "b3 < 192" "b0 = 240 \<longrightarrow> 144 \<le> b1" "b0 = 244 \<longrightarrow> b1 < 144"
    by (auto simp: is_cont_def split: if_splits)
  then have b: "b0 = 240 + x" "b1 = 128 + y" "b2 = 128 + z" "b3 = 128 + u"
      "x < 5" "y < 64" "z < 64" "u < 64" "x = 0 \<longrightarrow> 16 \<le> y" "x = 4 \<longrightarrow> y < 16"
    by (auto simp: x_def y_def z_def u_def)
  have c: "c = x * 262144 + y * 4096 + z * 64 + u"
    using 4 r by (simp add: is_cont_def lead4_mod cont_mod x_def y_def z_def u_def)
  have g: "c div 262144 = x" "c div 4096 mod 64 = y" "c div 64 mod 64 = z" "c mod 64 = u"
    unfolding c using b by (simp_all only: groups4)
  have "65536 \<le> c" "c < 1114112"
    using b by (auto simp: c)
  then show ?case
    by (simp add: scalar_value_def g b)
qed simp_all

subsection \<open>Well-formed sequences and the encoder\<close>

lemma wf_iff_encoding:
  "wf_cp bs \<noteq> None \<longleftrightarrow> (\<exists>c. scalar_value c \<and> utf8_encode_cp c = bs)"
  using wf_encode encode_wf by (metis option.distinct(1) option.exhaust)

lemma starts_text_iff:
  "starts_text bs \<longleftrightarrow> (\<exists>p rest. bs = p @ rest \<and> wf_cp p \<noteq> None)"
  unfolding starts_text_def wf_iff_encoding by blast

lemma could_start_iff: "could_start p \<longleftrightarrow> (\<exists>more. wf_cp (p @ more) \<noteq> None)"
  unfolding could_start_def wf_iff_encoding by blast

lemma at_wf:
  assumes "wf_cp p = Some c" "replaces rest t"
  shows "replaces (p @ rest) (c # t)"
  using encode_wf [OF assms(1)] replaces.at_char [of c rest t] assms(2) by simp

text \<open>Sequences that are not well-formed, by their first bytes.\<close>

lemma wf_lead: "\<not> (b0 < 128 \<or> 194 \<le> b0 \<and> b0 < 245) \<Longrightarrow> wf_cp (b0 # xs) = None"
  by (cases "b0 # xs" rule: wf_cp.cases) auto

lemma wf_second: "128 \<le> b0 \<Longrightarrow> \<not> second_ok b0 b1 \<Longrightarrow> wf_cp (b0 # b1 # xs) = None"
  by (cases "b0 # b1 # xs" rule: wf_cp.cases) (auto simp: second_ok_def)

lemma wf_third: "224 \<le> b0 \<Longrightarrow> \<not> is_cont b2 \<Longrightarrow> wf_cp (b0 # b1 # b2 # xs) = None"
  by (cases "b0 # b1 # b2 # xs" rule: wf_cp.cases) auto

lemma wf_fourth: "240 \<le> b0 \<Longrightarrow> \<not> is_cont b3 \<Longrightarrow> wf_cp (b0 # b1 # b2 # b3 # xs) = None"
  by (cases "b0 # b1 # b2 # b3 # xs" rule: wf_cp.cases) auto

text \<open>Where an input starts with a well-formed sequence.\<close>

lemma wf_prefix:
  assumes "wf_cp p \<noteq> None" "b0 # bs = p @ rest"
  shows "b0 < 128
    \<or> (\<exists>b1 bs1. bs = b1 # bs1 \<and> 194 \<le> b0 \<and> b0 < 245 \<and> second_ok b0 b1
         \<and> (b0 < 224
            \<or> (\<exists>b2 bs2. bs1 = b2 # bs2 \<and> is_cont b2
                 \<and> (b0 < 240 \<or> (\<exists>b3 bs3. bs2 = b3 # bs3 \<and> is_cont b3)))))"
  using assms
proof (induction p rule: wf_cp.induct)
  case (1 x0)
  then show ?case
    by (simp split: if_splits)
next
  case (2 x0 x1)
  then have "b0 = x0" "bs = x1 # rest" "194 \<le> x0" "x0 < 224" "is_cont x1"
    by (simp_all split: if_splits)
  then show ?case
    by (simp add: second_ok_def)
next
  case (3 x0 x1 x2)
  then have "b0 = x0" "bs = x1 # x2 # rest" "224 \<le> x0" "x0 < 240" "is_cont x1" "is_cont x2"
    "x0 = 224 \<longrightarrow> 160 \<le> x1" "x0 = 237 \<longrightarrow> x1 < 160"
    by (simp_all split: if_splits)
  then show ?case
    by (simp add: second_ok_def)
next
  case (4 x0 x1 x2 x3)
  then have "b0 = x0" "bs = x1 # x2 # x3 # rest" "240 \<le> x0" "x0 < 245"
    "is_cont x1" "is_cont x2" "is_cont x3"
    "x0 = 240 \<longrightarrow> 144 \<le> x1" "x0 = 244 \<longrightarrow> x1 < 144"
    by (simp_all split: if_splits)
  then show ?case
    by (simp add: second_ok_def)
qed simp_all

lemma starts_text_cons:
  assumes "starts_text (b0 # bs)"
  shows "b0 < 128
    \<or> (\<exists>b1 bs1. bs = b1 # bs1 \<and> 194 \<le> b0 \<and> b0 < 245 \<and> second_ok b0 b1
         \<and> (b0 < 224
            \<or> (\<exists>b2 bs2. bs1 = b2 # bs2 \<and> is_cont b2
                 \<and> (b0 < 240 \<or> (\<exists>b3 bs3. bs2 = b3 # bs3 \<and> is_cont b3)))))"
proof -
  obtain p rest where p: "b0 # bs = p @ rest" "wf_cp p \<noteq> None"
    using assms unfolding starts_text_iff by auto
  show ?thesis
    by (rule wf_prefix [OF p(2) p(1)])
qed

subsection \<open>The decoder, by the class of the first byte\<close>

lemma second_2: "194 \<le> b0 \<Longrightarrow> b0 < 224 \<Longrightarrow> is_cont b1 = second_ok b0 b1"
  by (auto simp: second_ok_def)

lemma second_3:
  "224 \<le> b0 \<Longrightarrow> b0 < 240 \<Longrightarrow>
     (\<not> is_cont b1 \<or> (if b1 < 160 then b0 = 224 else b0 = 237)) = (\<not> second_ok b0 b1)"
  by (auto simp: second_ok_def)

lemma second_4:
  "240 \<le> b0 \<Longrightarrow> b0 < 245 \<Longrightarrow>
     (\<not> is_cont b1 \<or> (if b1 < 144 then b0 = 240 else b0 = 244)) = (\<not> second_ok b0 b1)"
  by (auto simp: second_ok_def)

lemma decode_ascii:
  assumes "b0 < 128"
  shows "utf8_decode m (b0 # bs) = u8_emit b0 (utf8_decode m bs)"
  by (subst utf8_decode.simps(2)) (simp only: assms if_True)

lemma decode_no_lead:
  assumes "\<not> (b0 < 128 \<or> 194 \<le> b0 \<and> b0 < 245)"
  shows "utf8_decode m (b0 # bs) = u8_error m (utf8_decode m bs)"
proof (cases "b0 < 194")
  case True
  have "\<not> b0 < 128"
    using assms by simp
  then show ?thesis
    by (subst utf8_decode.simps(2)) (simp only: True if_True if_False)
next
  case False
  then have "\<not> b0 < 128" "\<not> b0 < 224" "\<not> b0 < 240" "\<not> b0 < 245"
    using assms by simp_all
  then show ?thesis
    by (subst utf8_decode.simps(2)) (simp only: False if_False)
qed

lemma decode_lead2:
  assumes "194 \<le> b0" "b0 < 224"
  shows "utf8_decode m (b0 # bs) =
     (case bs of
        [] \<Rightarrow> u8_error m (Inr [])
      | b1 # bs1 \<Rightarrow>
          if \<not> second_ok b0 b1 then u8_error m (utf8_decode m bs)
          else u8_emit ((b0 mod 32) * 64 + b1 mod 64) (utf8_decode m bs1))"
proof -
  have r: "\<not> b0 < 128" "\<not> b0 < 194"
    using assms(1) by simp_all
  show ?thesis
    by (subst utf8_decode.simps(2))
      (simp only: r assms(2) second_2 [OF assms] if_True if_False)
qed

lemma decode_lead3:
  assumes "224 \<le> b0" "b0 < 240"
  shows "utf8_decode m (b0 # bs) =
     (case bs of
        [] \<Rightarrow> u8_error m (Inr [])
      | b1 # bs1 \<Rightarrow>
          if \<not> second_ok b0 b1 then u8_error m (utf8_decode m bs)
          else (case bs1 of
              [] \<Rightarrow> u8_error m (Inr [])
            | b2 # bs2 \<Rightarrow>
                if \<not> is_cont b2 then u8_error m (utf8_decode m bs1)
                else u8_emit ((b0 mod 16) * 4096 + (b1 mod 64) * 64 + b2 mod 64)
                       (utf8_decode m bs2)))"
proof -
  have r: "\<not> b0 < 128" "\<not> b0 < 194" "\<not> b0 < 224"
    using assms(1) by simp_all
  show ?thesis
    by (subst utf8_decode.simps(2))
      (simp only: r assms(2) second_3 [OF assms] if_True if_False)
qed

lemma decode_lead4:
  assumes "240 \<le> b0" "b0 < 245"
  shows "utf8_decode m (b0 # bs) =
     (case bs of
        [] \<Rightarrow> u8_error m (Inr [])
      | b1 # bs1 \<Rightarrow>
          if \<not> second_ok b0 b1 then u8_error m (utf8_decode m bs)
          else (case bs1 of
              [] \<Rightarrow> u8_error m (Inr [])
            | b2 # bs2 \<Rightarrow>
                if \<not> is_cont b2 then u8_error m (utf8_decode m bs1)
                else (case bs2 of
                    [] \<Rightarrow> u8_error m (Inr [])
                  | b3 # bs3 \<Rightarrow>
                      if \<not> is_cont b3 then u8_error m (utf8_decode m bs2)
                      else u8_emit ((b0 mod 8) * 262144 + (b1 mod 64) * 4096
                                      + (b2 mod 64) * 64 + b3 mod 64)
                             (utf8_decode m bs3))))"
proof -
  have r: "\<not> b0 < 128" "\<not> b0 < 194" "\<not> b0 < 224" "\<not> b0 < 240"
    using assms(1) by simp_all
  show ?thesis
    by (subst utf8_decode.simps(2))
      (simp only: r assms(2) second_4 [OF assms] if_True if_False)
qed

text \<open>The decoder takes a well-formed sequence at the head of its input.\<close>

lemma wf_decode:
  assumes "wf_cp p = Some c"
  shows "utf8_decode m (p @ rest) = u8_emit c (utf8_decode m rest)"
  using assms
proof (induction p rule: wf_cp.induct)
  case (1 b0)
  then have "b0 < 128" "c = b0"
    by (simp_all split: if_splits)
  then show ?case
    using decode_ascii [of b0 m rest] by simp
next
  case (2 b0 b1)
  then have r: "194 \<le> b0" "b0 < 224" "is_cont b1"
    and c: "c = (b0 mod 32) * 64 + b1 mod 64"
    by (simp_all split: if_splits)
  have "second_ok b0 b1"
    using r by (simp add: second_ok_def)
  then show ?case
    unfolding c using decode_lead2 [OF r(1,2), of m "b1 # rest"]
    by (simp del: utf8_decode.simps(2))
next
  case (3 b0 b1 b2)
  then have r: "224 \<le> b0" "b0 < 240" "is_cont b1" "is_cont b2"
      "b0 = 224 \<longrightarrow> 160 \<le> b1" "b0 = 237 \<longrightarrow> b1 < 160"
    and c: "c = (b0 mod 16) * 4096 + (b1 mod 64) * 64 + b2 mod 64"
    by (simp_all split: if_splits)
  have "second_ok b0 b1"
    using r by (simp add: second_ok_def)
  then show ?case
    unfolding c using decode_lead3 [OF r(1,2), of m "b1 # b2 # rest"] r(4)
    by (simp del: utf8_decode.simps(2))
next
  case (4 b0 b1 b2 b3)
  then have r: "240 \<le> b0" "b0 < 245" "is_cont b1" "is_cont b2" "is_cont b3"
      "b0 = 240 \<longrightarrow> 144 \<le> b1" "b0 = 244 \<longrightarrow> b1 < 144"
    and c: "c = (b0 mod 8) * 262144 + (b1 mod 64) * 4096 + (b2 mod 64) * 64 + b3 mod 64"
    by (simp_all split: if_splits)
  have "second_ok b0 b1"
    using r by (simp add: second_ok_def)
  then show ?case
    unfolding c using decode_lead4 [OF r(1,2), of m "b1 # b2 # b3 # rest"] r(4,5)
    by (simp del: utf8_decode.simps(2))
qed simp_all

subsection \<open>What could still start a well-formed sequence\<close>

lemma no_start_lead:
  "\<not> (b0 < 128 \<or> 194 \<le> b0 \<and> b0 < 245) \<Longrightarrow> \<not> could_start (b0 # xs)"
  by (simp add: could_start_iff wf_lead)

lemma no_start_second: "128 \<le> b0 \<Longrightarrow> \<not> second_ok b0 b1 \<Longrightarrow> \<not> could_start (b0 # b1 # xs)"
  by (simp add: could_start_iff wf_second)

lemma no_start_third: "224 \<le> b0 \<Longrightarrow> \<not> is_cont b2 \<Longrightarrow> \<not> could_start (b0 # b1 # b2 # xs)"
  by (simp add: could_start_iff wf_third)

lemma no_start_fourth:
  "240 \<le> b0 \<Longrightarrow> \<not> is_cont b3 \<Longrightarrow> \<not> could_start (b0 # b1 # b2 # b3 # xs)"
  by (simp add: could_start_iff wf_fourth)

lemma start_two:
  assumes "224 \<le> b0" "b0 < 245" "second_ok b0 b1"
  shows "could_start [b0, b1]"
proof (cases "b0 < 240")
  case True
  have "wf_cp ([b0, b1] @ [128]) \<noteq> None"
    using assms True by (simp add: second_ok_def is_cont_def)
  then show ?thesis
    unfolding could_start_iff by (rule exI)
next
  case False
  have "wf_cp ([b0, b1] @ [128, 128]) \<noteq> None"
    using assms False by (simp add: second_ok_def is_cont_def)
  then show ?thesis
    unfolding could_start_iff by (rule exI)
qed

lemma start_three:
  assumes "240 \<le> b0" "b0 < 245" "second_ok b0 b1" "is_cont b2"
  shows "could_start [b0, b1, b2]"
proof -
  have "wf_cp ([b0, b1, b2] @ [128]) \<noteq> None"
    using assms by (simp add: second_ok_def is_cont_def)
  then show ?thesis
    unfolding could_start_iff by (rule exI)
qed

text \<open>The well-formed sequences that the decoder accepts, with the code point it gives.\<close>

lemma wf_two:
  "194 \<le> b0 \<Longrightarrow> b0 < 224 \<Longrightarrow> second_ok b0 b1 \<Longrightarrow>
     wf_cp [b0, b1] = Some ((b0 mod 32) * 64 + b1 mod 64)"
  by (simp add: second_ok_def)

lemma wf_three:
  "224 \<le> b0 \<Longrightarrow> b0 < 240 \<Longrightarrow> second_ok b0 b1 \<Longrightarrow> is_cont b2 \<Longrightarrow>
     wf_cp [b0, b1, b2] = Some ((b0 mod 16) * 4096 + (b1 mod 64) * 64 + b2 mod 64)"
  by (simp add: second_ok_def)

lemma wf_four:
  "240 \<le> b0 \<Longrightarrow> b0 < 245 \<Longrightarrow> second_ok b0 b1 \<Longrightarrow> is_cont b2 \<Longrightarrow> is_cont b3 \<Longrightarrow>
     wf_cp [b0, b1, b2, b3]
       = Some ((b0 mod 8) * 262144 + (b1 mod 64) * 4096 + (b2 mod 64) * 64 + b3 mod 64)"
  by (simp add: second_ok_def)

subsection \<open>One step of the decoder\<close>

text \<open>
  At the head of a non-empty input the decoder either takes a well-formed sequence and
  emits its code point, or the input does not start with one and the decoder reports
  one error for the maximal subpart.
\<close>

lemma decode_step:
  obtains (good) p c rest where "b0 # bs = p @ rest" "wf_cp p = Some c"
      "utf8_decode m (b0 # bs) = u8_emit c (utf8_decode m rest)"
  | (bad) bad rest where "b0 # bs = bad @ rest" "bad \<noteq> []" "\<not> starts_text (b0 # bs)"
      "maximal_subpart bad rest"
      "utf8_decode m (b0 # bs) = u8_error m (utf8_decode m rest)"
proof -
  consider (ascii) "b0 < 128" | (none) "\<not> (b0 < 128 \<or> 194 \<le> b0 \<and> b0 < 245)"
    | (lead) "194 \<le> b0" "b0 < 245"
    by linarith
  then show thesis
  proof cases
    case ascii
    have "b0 # bs = [b0] @ bs" "wf_cp [b0] = Some b0"
      using ascii by simp_all
    then show thesis
      using decode_ascii [OF ascii] by (rule good)
  next
    case none
    have 1: "b0 # bs = [b0] @ bs" "[b0] \<noteq> []"
      by simp_all
    have 2: "\<not> starts_text (b0 # bs)"
      using starts_text_cons [of b0 bs] none by auto
    have 3: "maximal_subpart [b0] bs"
      using none by (cases bs) (simp_all add: maximal_subpart_def no_start_lead)
    show thesis
      using 1 2 3 decode_no_lead [OF none] by (rule bad)
  next
    case lead
    note eq = decode_lead2 [of b0 m bs] decode_lead3 [of b0 m bs] decode_lead4 [of b0 m bs]
    have hi: "128 \<le> b0"
      using lead(1) by simp
    show thesis
    proof (cases bs)
      case Nil
      have 1: "b0 # bs = [b0] @ []" "[b0] \<noteq> []"
        using Nil by simp_all
      have 2: "\<not> starts_text (b0 # bs)"
        using starts_text_cons [of b0 bs] lead Nil by auto
      have 3: "maximal_subpart [b0] []"
        by (simp add: maximal_subpart_def)
      have 4: "utf8_decode m (b0 # bs) = u8_error m (utf8_decode m [])"
        using eq lead Nil by (cases "b0 < 224"; cases "b0 < 240") simp_all
      show thesis
        using 1 2 3 4 by (rule bad)
    next
      case bs: (Cons b1 bs1)
      show thesis
      proof (cases "second_ok b0 b1")
        case False
        have 1: "b0 # bs = [b0] @ (b1 # bs1)" "[b0] \<noteq> []"
          using bs by simp_all
        have 2: "\<not> starts_text (b0 # bs)"
          using starts_text_cons [of b0 bs] lead bs False by auto
        have 3: "maximal_subpart [b0] (b1 # bs1)"
          using no_start_second [OF hi False, of "[]"] by (simp add: maximal_subpart_def)
        have 4: "utf8_decode m (b0 # bs) = u8_error m (utf8_decode m (b1 # bs1))"
          using eq lead bs False
          by (cases "b0 < 224"; cases "b0 < 240") (simp_all del: utf8_decode.simps(2))
        show thesis
          using 1 2 3 4 by (rule bad)
      next
        case ok1: True
        show thesis
        proof (cases "b0 < 224")
          case True
          have 1: "b0 # bs = [b0, b1] @ bs1"
            using bs by simp
          have 4: "utf8_decode m (b0 # bs)
              = u8_emit ((b0 mod 32) * 64 + b1 mod 64) (utf8_decode m bs1)"
            using eq(1) lead True bs ok1 by (simp del: utf8_decode.simps(2))
          show thesis
            using 1 wf_two [OF lead(1) True ok1] 4 by (rule good)
        next
          case l3: False
          then have l3': "224 \<le> b0"
            by simp
          show thesis
          proof (cases bs1)
            case Nil
            have 1: "b0 # bs = [b0, b1] @ []" "[b0, b1] \<noteq> []"
              using bs Nil by simp_all
            have 2: "\<not> starts_text (b0 # bs)"
              using starts_text_cons [of b0 bs] l3 bs Nil by auto
            have 3: "maximal_subpart [b0, b1] []"
              using start_two [OF l3' lead(2) ok1] by (simp add: maximal_subpart_def)
            have 4: "utf8_decode m (b0 # bs) = u8_error m (utf8_decode m [])"
              using eq(2,3) lead l3' bs Nil ok1
              by (cases "b0 < 240") (simp_all del: utf8_decode.simps(2))
            show thesis
              using 1 2 3 4 by (rule bad)
          next
            case bs1: (Cons b2 bs2)
            show thesis
            proof (cases "is_cont b2")
              case False
              have 1: "b0 # bs = [b0, b1] @ (b2 # bs2)" "[b0, b1] \<noteq> []"
                using bs bs1 by simp_all
              have 2: "\<not> starts_text (b0 # bs)"
                using starts_text_cons [of b0 bs] l3 bs bs1 False by auto
              have 3: "maximal_subpart [b0, b1] (b2 # bs2)"
                using start_two [OF l3' lead(2) ok1] no_start_third [OF l3' False, of b1 "[]"]
                by (simp add: maximal_subpart_def)
              have 4: "utf8_decode m (b0 # bs) = u8_error m (utf8_decode m (b2 # bs2))"
                using eq(2,3) lead l3' bs bs1 ok1 False
                by (cases "b0 < 240") (simp_all del: utf8_decode.simps(2))
              show thesis
                using 1 2 3 4 by (rule bad)
            next
              case ok2: True
              show thesis
              proof (cases "b0 < 240")
                case True
                have 1: "b0 # bs = [b0, b1, b2] @ bs2"
                  using bs bs1 by simp
                have 4: "utf8_decode m (b0 # bs)
                    = u8_emit ((b0 mod 16) * 4096 + (b1 mod 64) * 64 + b2 mod 64)
                        (utf8_decode m bs2)"
                  using eq(2) l3' True bs bs1 ok1 ok2 by (simp del: utf8_decode.simps(2))
                show thesis
                  using 1 wf_three [OF l3' True ok1 ok2] 4 by (rule good)
              next
                case l4: False
                then have l4': "240 \<le> b0"
                  by simp
                show thesis
                proof (cases bs2)
                  case Nil
                  have 1: "b0 # bs = [b0, b1, b2] @ []" "[b0, b1, b2] \<noteq> []"
                    using bs bs1 Nil by simp_all
                  have 2: "\<not> starts_text (b0 # bs)"
                    using starts_text_cons [of b0 bs] l3 l4 bs bs1 Nil by auto
                  have 3: "maximal_subpart [b0, b1, b2] []"
                    using start_three [OF l4' lead(2) ok1 ok2] by (simp add: maximal_subpart_def)
                  have 4: "utf8_decode m (b0 # bs) = u8_error m (utf8_decode m [])"
                    using eq(3) lead l4' bs bs1 Nil ok1 ok2 by (simp del: utf8_decode.simps(2))
                  show thesis
                    using 1 2 3 4 by (rule bad)
                next
                  case bs2: (Cons b3 bs3)
                  show thesis
                  proof (cases "is_cont b3")
                    case False
                    have 1: "b0 # bs = [b0, b1, b2] @ (b3 # bs3)" "[b0, b1, b2] \<noteq> []"
                      using bs bs1 bs2 by simp_all
                    have 2: "\<not> starts_text (b0 # bs)"
                      using starts_text_cons [of b0 bs] l3 l4 bs bs1 bs2 False by auto
                    have 3: "maximal_subpart [b0, b1, b2] (b3 # bs3)"
                      using start_three [OF l4' lead(2) ok1 ok2]
                        no_start_fourth [OF l4' False, of b1 b2 "[]"]
                      by (simp add: maximal_subpart_def)
                    have 4: "utf8_decode m (b0 # bs) = u8_error m (utf8_decode m (b3 # bs3))"
                      using eq(3) lead l4' bs bs1 bs2 ok1 ok2 False
                      by (simp del: utf8_decode.simps(2))
                    show thesis
                      using 1 2 3 4 by (rule bad)
                  next
                    case ok3: True
                    have 1: "b0 # bs = [b0, b1, b2, b3] @ bs3"
                      using bs bs1 bs2 by simp
                    have 4: "utf8_decode m (b0 # bs)
                        = u8_emit ((b0 mod 8) * 262144 + (b1 mod 64) * 4096
                                     + (b2 mod 64) * 64 + b3 mod 64) (utf8_decode m bs3)"
                      using eq(3) lead l4' bs bs1 bs2 ok1 ok2 ok3
                      by (simp del: utf8_decode.simps(2))
                    show thesis
                      using 1 wf_four [OF l4' lead(2) ok1 ok2 ok3] 4 by (rule good)
                  qed
                qed
              qed
            qed
          qed
        qed
      qed
    qed
  qed
qed

subsection \<open>The decoder against the encoder\<close>

lemma emit_Inr: "u8_emit c r = Inr s \<longleftrightarrow> (\<exists>t. r = Inr t \<and> s = c # t)"
  by (cases r) (auto simp: u8_emit_def)

lemma wf_tail_shorter:
  assumes "wf_cp p = Some c" "b0 # bs = p @ rest"
  shows "length rest < length (b0 # bs)"
proof -
  have "p \<noteq> []"
    using assms(1) by auto
  then show ?thesis
    unfolding assms(2) by simp
qed

text \<open>
  With the replacing handler, the text is the input with every well-formed sequence
  decoded and every maximal ill-formed subpart replaced by one U+FFFD.
\<close>

lemma decode_replaces: "utf8_decode Replace bs = Inr s \<Longrightarrow> replaces bs s"
proof (induction bs arbitrary: s rule: length_induct)
  case (1 bs)
  have IH: "\<And>r t. length r < length bs \<Longrightarrow> utf8_decode Replace r = Inr t \<Longrightarrow> replaces r t"
    using 1(1) by blast
  show ?case
  proof (cases bs)
    case Nil
    then show ?thesis
      using 1(2) by (simp add: replaces.at_end)
  next
    case (Cons b0 r)
    show ?thesis
    proof (cases rule: decode_step [of b0 r Replace])
      case (good p c rest)
      have "u8_emit c (utf8_decode Replace rest) = Inr s"
        using 1(2) unfolding Cons good(3) .
      then obtain t where t: "utf8_decode Replace rest = Inr t" "s = c # t"
        unfolding emit_Inr by blast
      have "length rest < length bs"
        using wf_tail_shorter [OF good(2,1)] Cons by simp
      then have "replaces rest t"
        using t(1) by (rule IH)
      then show ?thesis
        unfolding Cons good(1) t(2) by (rule at_wf [OF good(2)])
    next
      case (bad bad rest)
      have "u8_emit 65533 (utf8_decode Replace rest) = Inr s"
        using 1(2) unfolding Cons bad(5) by (simp add: u8_error_def)
      then obtain t where t: "utf8_decode Replace rest = Inr t" "s = 65533 # t"
        unfolding emit_Inr by blast
      have "length rest < length bs"
        using bad(1,2) Cons by (cases bad) simp_all
      then have "replaces rest t"
        using t(1) by (rule IH)
      then show ?thesis
        using replaces.at_error [OF bad(2) bad(3) [unfolded bad(1)] bad(4)]
        unfolding Cons bad(1) t(2) by blast
    qed
  qed
qed

text \<open>The strict handler returns a text exactly for the encodings of scalar values.\<close>

lemma strict_is_encoding:
  "utf8_decode Strict bs = Inr s \<Longrightarrow> list_all scalar_value s \<and> bs = utf8_encode s"
proof (induction bs arbitrary: s rule: length_induct)
  case (1 bs)
  have IH: "\<And>r t. length r < length bs \<Longrightarrow> utf8_decode Strict r = Inr t
      \<Longrightarrow> list_all scalar_value t \<and> r = utf8_encode t"
    using 1(1) by blast
  show ?case
  proof (cases bs)
    case Nil
    then show ?thesis
      using 1(2) by (auto simp: utf8_encode_def)
  next
    case (Cons b0 r)
    show ?thesis
    proof (cases rule: decode_step [of b0 r Strict])
      case (good p c rest)
      have "u8_emit c (utf8_decode Strict rest) = Inr s"
        using 1(2) unfolding Cons good(3) .
      then obtain t where t: "utf8_decode Strict rest = Inr t" "s = c # t"
        unfolding emit_Inr by blast
      have "length rest < length bs"
        using wf_tail_shorter [OF good(2,1)] Cons by simp
      then have "list_all scalar_value t \<and> rest = utf8_encode t"
        using t(1) by (rule IH)
      moreover have "scalar_value c \<and> utf8_encode_cp c = p"
        using good(2) by (rule encode_wf)
      ultimately show ?thesis
        unfolding Cons good(1) t(2) by (simp add: utf8_encode_def del: utf8_encode_cp.simps)
    next
      case (bad bad rest)
      show ?thesis
        using 1(2) unfolding Cons bad(5) by (simp add: u8_error_def)
    qed
  qed
qed

lemma encoding_decodes: "list_all scalar_value s \<Longrightarrow> utf8_decode m (utf8_encode s) = Inr s"
proof (induction s)
  case Nil
  then show ?case
    by (simp add: utf8_encode_def)
next
  case (Cons c s)
  then have "wf_cp (utf8_encode_cp c) = Some c" "utf8_decode m (utf8_encode s) = Inr s"
    by (simp_all add: wf_encode del: utf8_encode_cp.simps)
  then show ?case
    using wf_decode [of "utf8_encode_cp c" c m "utf8_encode s"]
    by (simp add: utf8_encode_def u8_emit_def del: utf8_encode_cp.simps)
qed

lemma encoding_iff_strict:
  "(\<exists>s. list_all scalar_value s \<and> bs = utf8_encode s) \<longleftrightarrow> (\<exists>s. utf8_decode Strict bs = Inr s)"
  using strict_is_encoding encoding_decodes by blast

lemma is_utf8_valid: "is_utf8 b \<longleftrightarrow> valid_utf8 b"
  using strict_cases [of b] encoding_iff_strict [of "map unat b"]
  by (auto simp: is_utf8_def valid_utf8_def bytes_decode_def)

lemma replace_replaces: "replaces (map unat b) (text_of Replace b)"
  using replace_Inr [of b] decode_replaces [of "map unat b" "text_of Replace b"]
  by (simp add: bytes_decode_def)

lemma not_utf8_replaced: "\<not> is_utf8 b \<Longrightarrow> 65533 \<in> set (text_of Replace b)"
  using strict_cases [of b] by (auto simp: is_utf8_valid valid_utf8_def text_of_def)
subsection \<open>Whole walks\<close>

lemma scalars_walk:
  assumes "fs w path = Some (Readable content)"
    and "content = gguf_header version tensor_count kv_count @ enc_scalars es @ rest"
    and "header_ok version tensor_count kv_count"
    and "kv_count = int (length es)"
    and "list_all (scalar_ok (read_cap w)) es"
    and "list_all (can_print (stdout_encodes w)) (map pair_line es)"
  shows "inspect_gguf_raw w path =
     \<lparr>printed = header_lines version tensor_count kv_count @ map pair_line es,
      bytes_read = length content - length rest, raised = None\<rparr>"
proof -
  have "kv_loop (read_cap w) (stdout_encodes w) (length es + 0) (enc_scalars es @ rest)
      = (map pair_line es, rest)"
    by (simp only: kv_loop_scalars [OF assms(5,6)] kv_loop.simps fst_conv snd_conv append_Nil2)
  then have l: "kv_loop (read_cap w) (stdout_encodes w) (nat kv_count) (enc_scalars es @ rest)
      = (map pair_line es, rest)"
    using assms(4) by simp
  show ?thesis
    using inspect_raw_header [OF assms(1) [unfolded assms(2)] assms(3)]
    by (simp add: l assms(2))
qed

lemma stop_walk:
  assumes "fs w path = Some (Readable content)"
    and "content = gguf_header version tensor_count kv_count @ enc_scalars es @ x"
    and "header_ok version tensor_count kv_count"
    and "int (length es) < kv_count"
    and "list_all (scalar_ok (read_cap w)) es"
    and "list_all (can_print (stdout_encodes w)) (map pair_line es)"
    and "parse_kv (read_cap w) x = (r, rest)" "\<And>ln. r \<noteq> Inr (Emit ln)"
  shows "inspect_gguf_raw w path =
     \<lparr>printed = header_lines version tensor_count kv_count @ map pair_line es
        @ [case r of
             Inl e \<Rightarrow> ParseErrorLine e
           | Inr (Stop ln) \<Rightarrow>
               if can_print (stdout_encodes w) ln then ln
               else ParseErrorLine UnicodeEncodeError
           | Inr (Emit ln) \<Rightarrow> ln],
      bytes_read = length content - length rest, raised = None\<rparr>"
  using inspect_raw_header [OF assms(1) [unfolded assms(2)] assms(3)]
    kv_loop_after_scalars [OF assms(5,6) assms(4) assms(7) assms(8)]
  by (simp add: assms(2))

text \<open>
  A file of typed entries without a negative signed value is printed as a reader that
  decodes by declared type would print it.
\<close>

lemma typed_entry_ok:
  assumes "key_ok cap kb" "in_range v" "servable cap (int (length (value_payload v)))"
  shows "scalar_ok cap (entry kb v)"
  using assms by (cases v) (simp_all add: scalar_ok_def entry_def length_le_bytes)

lemma typed_scalars_walk:
  assumes "fs w path = Some (Readable content)"
    and "content = gguf_header version tensor_count kv_count
           @ enc_scalars (map (\<lambda>(kb, v). entry kb v) kvs) @ rest"
    and "header_ok version tensor_count kv_count"
    and "kv_count = int (length kvs)"
    and "list_all (\<lambda>(kb, v). key_ok (read_cap w) kb \<and> in_range v \<and> sign_clear v
           \<and> servable (read_cap w) (int (length (value_payload v)))) kvs"
    and "list_all (can_print (stdout_encodes w)) (expected_lines kvs)"
  shows "inspect_gguf_raw w path =
     \<lparr>printed = header_lines version tensor_count kv_count @ expected_lines kvs,
      bytes_read = length content - length rest, raised = None\<rparr>"
proof -
  have ok: "list_all (scalar_ok (read_cap w)) (map (\<lambda>(kb, v). entry kb v) kvs)"
    using assms(5) by (induction kvs) (auto simp: typed_entry_ok)
  have ex: "map pair_line (map (\<lambda>(kb, v). entry kb v) kvs) = expected_lines kvs"
    using assms(5)
    by (induction kvs)
      (auto simp: expected_lines_def pair_line_def entry_def round_trip_sign_clear)
  have k: "kv_count = int (length (map (\<lambda>(kb, v). entry kb v) kvs))"
    using assms(4) by simp
  have pr: "list_all (can_print (stdout_encodes w))
      (map pair_line (map (\<lambda>(kb, v). entry kb v) kvs))"
    using assms(6) by (simp only: ex)
  show ?thesis
    using scalars_walk [OF assms(1,2,3) k ok pr] by (simp only: ex)
qed

lemma read_uint_eof: "0 < n \<Longrightarrow> read_uint n [] = (Inl StructError, [])"
  by (simp add: read_uint_def then_do_def f_read_def lift_def unpack_uint_def)

lemma parse_kv_eof: "parse_kv cap [] = (Inl StructError, [])"
  by (simp add: parse_kv_def read_key_def then_do_def read_uint_eof)

lemma kv_loop_eof:
  "kv_loop cap enc n [] = (if n = 0 then [] else [ParseErrorLine StructError], [])"
  by (cases n) (simp_all add: parse_kv_eof)

lemma f_read_len_short:
  assumes "int (length avail) < declared"
  shows "f_read_len cap declared avail =
     (if bytes_max < declared then (Inl OverflowError, avail)
      else if int cap < declared then (Inl MemoryError, avail)
      else (Inr avail, []))"
  using assms by (simp add: f_read_len_def)

lemma parse_kv_short_key:
  assumes "int (length avail) < declared" "declared < 2 ^ 64"
  shows "\<exists>f'. parse_kv cap (le_bytes 8 declared @ avail)
           = (Inl (short_key_error cap declared avail), f')"
proof -
  have 1: "read_uint 8 (le_bytes 8 declared @ avail) = (Inr declared, avail)"
    using assms by (intro read_uint_le_bytes) simp_all
  have 2: "bytes_decode Strict avail = Inl UnicodeDecodeError
      \<or> (\<exists>s. bytes_decode Strict avail = Inr s)"
    using strict_cases [of avail] by blast
  show ?thesis
    using 2
    by (auto simp: parse_kv_def read_key_def then_do_def 1 f_read_len_short [OF assms(1)]
        lift_def short_key_error_def valid_utf8_def read_uint_eof)
qed

text \<open>
  A string value announced longer than what is left of the file: the size is refused,
  or what is left is decoded with replacement and the file is at its end.
\<close>

lemma parse_kv_short_value:
  assumes "key_ok cap kb" "int (length avail) < declared" "declared < 2 ^ 64"
  shows "parse_kv cap (enc_key kb @ le_bytes 4 8 @ le_bytes 8 declared @ avail)
     = (if bytes_max < declared then (Inl OverflowError, avail)
        else if int cap < declared then (Inl MemoryError, avail)
        else (Inr (Emit (PairLine (text_of Strict kb) (VStr (text_of Replace avail)))), []))"
proof -
  have sv: "servable cap (int (length kb))"
    using assms(1) by (simp add: key_ok_def)
  have 1: "read_key cap (enc_key kb @ le_bytes 4 8 @ le_bytes 8 declared @ avail)
      = (Inr (text_of Strict kb), le_bytes 4 8 @ le_bytes 8 declared @ avail)"
    by (simp only: read_key_at [OF sv] key_ok_Inr [OF assms(1)])
  have 2: "read_uint 4 (le_bytes 4 8 @ le_bytes 8 declared @ avail)
      = (Inr 8, le_bytes 8 declared @ avail)"
    by (intro read_uint_le_bytes) simp_all
  have 3: "read_uint 8 (le_bytes 8 declared @ avail) = (Inr declared, avail)"
    using assms(2,3) by (intro read_uint_le_bytes) simp_all
  have 5: "read_value cap key 8 =
      then_do (read_uint 8) (\<lambda>s_len.
      then_do (f_read_len cap s_len) (\<lambda>vb.
      then_do (lift (bytes_decode Replace vb)) (\<lambda>v.
        lift (Inr (Emit (PairLine key (VStr v)))))))" for key
    by (simp add: read_value_def)
  show ?thesis
    by (simp add: parse_kv_def then_do_def 1 2 3 5 f_read_len_short [OF assms(2)]
        lift_def replace_Inr)
qed

lemma short_key_walk:
  assumes "fs w path = Some (Readable content)"
    and "content = gguf_header version tensor_count kv_count @ enc_scalars es
           @ le_bytes 8 declared @ avail"
    and "header_ok version tensor_count kv_count"
    and "int (length es) < kv_count"
    and "list_all (scalar_ok (read_cap w)) es"
    and "list_all (can_print (stdout_encodes w)) (map pair_line es)"
    and "int (length avail) < declared" "declared < 2 ^ 64"
  shows "printed (inspect_gguf_raw w path)
           = header_lines version tensor_count kv_count @ map pair_line es
             @ [ParseErrorLine (short_key_error (read_cap w) declared avail)]
         \<and> raised (inspect_gguf_raw w path) = None"
proof -
  obtain f' where p: "parse_kv (read_cap w) (le_bytes 8 declared @ avail)
      = (Inl (short_key_error (read_cap w) declared avail), f')"
    using parse_kv_short_key [OF assms(7,8)] by blast
  show ?thesis
    using stop_walk [OF assms(1-6) p] by simp
qed

lemma short_value_walk:
  assumes "fs w path = Some (Readable content)"
    and "content = gguf_header version tensor_count kv_count @ enc_scalars es
           @ enc_key kb @ le_bytes 4 8 @ le_bytes 8 declared @ avail"
    and "header_ok version tensor_count kv_count"
    and "int (length es) < kv_count"
    and "list_all (scalar_ok (read_cap w)) es"
    and "list_all (can_print (stdout_encodes w)) (map pair_line es)"
    and "int (length avail) < declared" "declared < 2 ^ 64"
    and "key_ok (read_cap w) kb"
  shows "printed (inspect_gguf_raw w path)
           = header_lines version tensor_count kv_count @ map pair_line es
             @ short_value_lines (read_cap w) (stdout_encodes w)
                 (kv_count = int (length es) + 1) kb declared avail
         \<and> raised (inspect_gguf_raw w path) = None"
proof -
  let ?x = "enc_key kb @ le_bytes 4 8 @ le_bytes 8 declared @ avail"
  obtain m where m: "nat kv_count = length es + Suc m"
    using assms(4) by (rule more_entries)
  have k: "m = 0 \<longleftrightarrow> kv_count = int (length es) + 1"
    using m assms(4) by linarith
  have p: "parse_kv (read_cap w) ?x
     = (if bytes_max < declared then (Inl OverflowError, avail)
        else if int (read_cap w) < declared then (Inl MemoryError, avail)
        else (Inr (Emit (PairLine (text_of Strict kb) (VStr (text_of Replace avail)))), []))"
    using assms(9,7,8) by (rule parse_kv_short_value)
  have s: "fst (kv_loop (read_cap w) (stdout_encodes w) (Suc m) ?x)
      = short_value_lines (read_cap w) (stdout_encodes w) (m = 0) kb declared avail"
    by (simp add: p kv_loop_eof short_value_lines_def)
  have l: "fst (kv_loop (read_cap w) (stdout_encodes w) (nat kv_count) (enc_scalars es @ ?x))
      = map pair_line es
        @ short_value_lines (read_cap w) (stdout_encodes w) (m = 0) kb declared avail"
    by (simp only: m kv_loop_scalars [OF assms(5,6), of "Suc m" ?x] s fst_conv)
  show ?thesis
    using inspect_raw_header [OF assms(1) [unfolded assms(2)] assms(3)]
    by (simp add: l assms(2) k)
qed

text \<open>
  A scalar entry between scalar entries: its pair is printed with the others if the
  standard output can encode it, and else the walk ends there with the exception of
  \<^verbatim>\<open>print\<close>.
\<close>

lemma kv_loop_unprintable:
  assumes "parse_kv cap x = (Inr (Emit ln), f')" "\<not> can_print enc ln"
  shows "kv_loop cap enc (Suc m) x = ([ParseErrorLine UnicodeEncodeError], f')"
  using assms by simp

lemma entry_between_walk:
  assumes "fs w path = Some (Readable content)"
    and "content = gguf_header version tensor_count kv_count @ enc_scalars es1
           @ enc_scalar e @ enc_scalars es2 @ rest"
    and "header_ok version tensor_count kv_count"
    and "kv_count = int (length es1 + 1 + length es2)"
    and "list_all (scalar_ok (read_cap w)) es1"
    and "scalar_ok (read_cap w) e"
    and "list_all (scalar_ok (read_cap w)) es2"
    and "list_all (can_print (stdout_encodes w)) (map pair_line es1)"
    and "list_all (can_print (stdout_encodes w)) (map pair_line es2)"
  shows "printed (inspect_gguf_raw w path)
           = header_lines version tensor_count kv_count @ map pair_line es1
             @ (if can_print (stdout_encodes w) (pair_line e) then pair_line e # map pair_line es2
                else [ParseErrorLine UnicodeEncodeError])
         \<and> raised (inspect_gguf_raw w path) = None"
proof (cases "can_print (stdout_encodes w) (pair_line e)")
  case True
  let ?es = "es1 @ [e] @ es2"
  have ok: "list_all (scalar_ok (read_cap w)) ?es"
    using assms(5-7) by simp
  have pr: "list_all (can_print (stdout_encodes w)) (map pair_line ?es)"
    using assms(8,9) True by simp
  have c: "content = gguf_header version tensor_count kv_count @ enc_scalars ?es @ rest"
    using assms(2) by (simp add: enc_scalars_def)
  have k: "kv_count = int (length ?es)"
    using assms(4) by simp
  have "printed (inspect_gguf_raw w path)
      = header_lines version tensor_count kv_count @ map pair_line ?es
    \<and> raised (inspect_gguf_raw w path) = None"
    by (simp only: scalars_walk [OF assms(1) c assms(3) k ok pr] raw_result.simps simp_thms)
  then show ?thesis
    using True by simp
next
  case False
  let ?x = "enc_scalar e @ enc_scalars es2 @ rest"
  have k: "nat kv_count = length es1 + Suc (length es2)"
    using assms(4) by simp
  have p: "parse_kv (read_cap w) ?x = (Inr (Emit (pair_line e)), enc_scalars es2 @ rest)"
    using assms(6) by (rule parse_kv_scalar)
  have l: "fst (kv_loop (read_cap w) (stdout_encodes w) (nat kv_count) (enc_scalars es1 @ ?x))
      = map pair_line es1 @ [ParseErrorLine UnicodeEncodeError]"
    by (simp only: k kv_loop_scalars [OF assms(5,8), of "Suc (length es2)" ?x]
        kv_loop_unprintable [OF p False] fst_conv)
  show ?thesis
    using inspect_raw_header [OF assms(1) [unfolded assms(2)] assms(3)] False
    by (simp add: l assms(2))
qed

subsection \<open>The library path\<close>

text \<open>
  A failure of the library's reader that is not the complaint about a quantization type
  is caught and printed, as long as the path and the message can be printed.
\<close>

lemma library_failure_handled:
  assumes "GGUFReader w p = Inl e" "\<not> is_quant_error e"
    and "can_print (stdout_encodes w) (InspectingLine p)"
    and "can_print (stdout_encodes w) (ErrorReadingLine e)"
  shows "inspect_gguf w p =
     \<lparr>printed = [InspectingLine p, ErrorReadingLine e], bytes_read = 0, raised = None,
      opened = [p]\<rparr>"
  using assms by (simp add: inspect_gguf_def)

lemma missing_architecture_escapes:
  assumes "GGUFReader w p = Inr reader"
    and "get_field reader (pystr_of ''general.architecture'') = None"
    and "can_print (stdout_encodes w) (InspectingLine p)"
  shows "inspect_gguf w p =
     \<lparr>printed = [InspectingLine p, ArchBanner], bytes_read = 0,
      raised = Some AttributeError, opened = [p]\<rparr>"
  using assms
  by (simp add: inspect_gguf_def show_reader_def architecture_def and_then_def can_print_def
      encodable_def)
subsection \<open>Printing on concrete outputs\<close>

lemmas stdout_defs = can_print_def encodable_def scalar_value_def latin1_def

lemma ascii_encodable: "list_all (\<lambda>c. c < 128) s \<Longrightarrow> encodable enc s"
  by (induction s) (simp_all add: encodable_def)

lemma default_path_prints: "can_print enc (NoArgumentLine default_path)"
  by (simp add: can_print_def encodable_def default_path_def pystr_of_def)

lemma say_all:
  "list_all (can_print enc) lns \<Longrightarrow> say enc lns = (lns, None)"
  by (induction lns) simp_all

lemma say_notice: "say enc (notice argv) = (notice argv, None)"
  by (simp add: notice_def default_path_prints)

section \<open>The claims\<close>

text \<open>
  In what follows the standard output is open and encodes ASCII; which other code
  points it encodes is the world's \<open>stdout_encodes\<close>. A line \<open>can_print\<close> when the text
  in it that comes from the file, the command line or an exception is encodable.
\<close>

text \<open>
  C1. A well-formed file of scalar entries should give one pair per entry, in file order,
  each value decoded as its declared type. On the file \<open>signed_file\<close> (\<open>a\<close> = 7 as a
  32-bit unsigned integer, then \<open>b\<close> = -1 as a 32-bit signed integer, tag 5) the reader
  prints two pairs in order, and the second value is 4294967295: tag 5 is unpacked with
  the unsigned format of tag 4. Decoding by declared type gives -1.
\<close>

theorem signed_int32_shown_unsigned:
  "printed (inspect_gguf_raw (world_with ''m.gguf'' signed_file unknown_quant)
      (pystr_of ''m.gguf''))
     = header_lines 3 0 2 @ [PairLine [97] (VInt 7), PairLine [98] (VInt 4294967295)]
   \<and> expected_lines [([97], U32 7), ([98], I32 (- 1))]
     = [PairLine [97] (VInt 7), PairLine [98] (VInt (- 1))]"
proof -
  let ?w = "world_with ''m.gguf'' signed_file unknown_quant"
  let ?es = "[entry [97] (U32 7), entry [98] (I32 (- 1))]"
  have 1: "fs ?w (pystr_of ''m.gguf'') = Some (Readable signed_file)"
    by (simp add: world_with_def)
  have 2: "header_ok 3 0 2"
    by (simp add: header_ok_def)
  have 3: "(2::int) = int (length ?es)"
    by simp
  have 4: "list_all (scalar_ok (read_cap ?w)) ?es"
    by (simp add: check_defs entry_def length_le_bytes)
  have 5: "signed_file = gguf_header 3 0 2 @ enc_scalars ?es @ []"
    by (simp add: signed_file_def)
  have 6: "map pair_line ?es = [PairLine [97] (VInt 7), PairLine [98] (VInt 4294967295)]"
    by (simp add: print_defs entry_def le_bytes_numeral)
  have 7: "expected_lines [([97], U32 7), ([98], I32 (- 1))]
      = [PairLine [97] (VInt 7), PairLine [98] (VInt (- 1))]"
    by (simp add: expected_lines_def print_defs)
  have 8: "list_all (can_print (stdout_encodes ?w)) (map pair_line ?es)"
    by (simp only: 6) (simp add: stdout_defs)
  show ?thesis
    by (simp only: scalars_walk [OF 1 5 2 3 4 8] raw_result.simps 6 7 simp_thms)
qed

text \<open>
  C2. Writing an entry in the documented layout and reading it back should give the
  value that was written. For the 64-bit signed value -2 under tag 11 the reader prints
  18446744073709551614: tags 10 and 11 share the unsigned format. The value written
  was -2.
\<close>

theorem negative_int64_not_reproduced:
  "printed (inspect_gguf_raw (world_with ''m.gguf'' int64_file unknown_quant)
      (pystr_of ''m.gguf''))
     = header_lines 3 0 1 @ [PairLine [107] (VInt 18446744073709551614)]
   \<and> original (I64 (- 2)) = VInt (- 2)"
proof -
  let ?w = "world_with ''m.gguf'' int64_file unknown_quant"
  let ?es = "[entry [107] (I64 (- 2))]"
  have 1: "fs ?w (pystr_of ''m.gguf'') = Some (Readable int64_file)"
    by (simp add: world_with_def)
  have 2: "header_ok 3 0 1"
    by (simp add: header_ok_def)
  have 3: "(1::int) = int (length ?es)"
    by simp
  have 4: "list_all (scalar_ok (read_cap ?w)) ?es"
    by (simp add: check_defs entry_def length_le_bytes)
  have 5: "int64_file = gguf_header 3 0 1 @ enc_scalars ?es @ []"
    by (simp add: int64_file_def)
  have 6: "map pair_line ?es = [PairLine [107] (VInt 18446744073709551614)]"
    by (simp add: print_defs entry_def le_bytes_numeral)
  have 8: "list_all (can_print (stdout_encodes ?w)) (map pair_line ?es)"
    by (simp only: 6) (simp add: stdout_defs)
  show ?thesis
    by (simp only: scalars_walk [OF 1 5 2 3 4 8] raw_result.simps 6 original.simps simp_thms)
qed



text \<open>
  C4. A file whose first four bytes are not the magic (a shorter file included) makes
  the reader print the bad-magic line and nothing else: no pair, no exception, and no
  byte read beyond those four.
\<close>

theorem bad_magic_rejected:
  assumes "fs w path = Some (Readable content)" and "take 4 content \<noteq> gguf_magic"
  shows "inspect_gguf_raw w path =
     \<lparr>printed = [BadMagicLine], bytes_read = min 4 (length content), raised = None\<rparr>"
  using assms by (simp add: inspect_gguf_raw_def raw_walk_def f_read_def min_def)

theorem bad_magic_rejected_witness:
  "inspect_gguf_raw (world_with ''m.gguf'' not_gguf_file unknown_quant) (pystr_of ''m.gguf'')
     = \<lparr>printed = [BadMagicLine], bytes_read = 4, raised = None\<rparr>"
proof -
  have 1: "fs (world_with ''m.gguf'' not_gguf_file unknown_quant) (pystr_of ''m.gguf'')
      = Some (Readable not_gguf_file)"
    by (simp add: world_with_def)
  have 2: "take 4 not_gguf_file \<noteq> gguf_magic"
    by (simp add: not_gguf_file_def gguf_magic_def)
  have 3: "min 4 (length not_gguf_file) = 4"
    by (simp add: not_gguf_file_def)
  show ?thesis
    using bad_magic_rejected [OF 1 2] by (simp only: 3)
qed



text \<open>
  C6, as amended. A string value (tag 8) whose bytes are not UTF-8, that is, not the
  encoding of any text of Unicode scalar values, is decoded without an exception: the
  text is the value read from left to right, each encoded scalar value decoded and each
  maximal subpart of an ill-formed sequence replaced by one U+FFFD, and it has a
  U+FFFD. If the standard output can encode the pair (the pairs of the other entries
  it can), the pair is printed between the pairs of the entries before it and the
  pairs of the entries after it. If it cannot, the \<^verbatim>\<open>print\<close> of the pair raises
  inside the \<^verbatim>\<open>try\<close>: the walk ends with the line of the \<^verbatim>\<open>UnicodeEncodeError\<close>, and
  neither the pair nor any later entry is printed. No exception leaves the function.
\<close>

theorem invalid_string_value_replaced:
  assumes "fs w path = Some (Readable content)"
    and "content = gguf_header version tensor_count kv_count @ enc_scalars es1
           @ enc_scalar (Scalar kb 8 vb) @ enc_scalars es2 @ rest"
    and "header_ok version tensor_count kv_count"
    and "kv_count = int (length es1 + 1 + length es2)"
    and "list_all (scalar_ok (read_cap w)) es1"
    and "list_all (scalar_ok (read_cap w)) es2"
    and "key_ok (read_cap w) kb"
    and "servable (read_cap w) (int (length vb))"
    and "\<not> is_utf8 vb"
    and "list_all (can_print (stdout_encodes w)) (map pair_line es1)"
    and "list_all (can_print (stdout_encodes w)) (map pair_line es2)"
  shows "bytes_decode Replace vb = Inr (text_of Replace vb)
         \<and> replaces (map unat vb) (text_of Replace vb)
         \<and> 65533 \<in> set (text_of Replace vb)
         \<and> printed (inspect_gguf_raw w path)
           = header_lines version tensor_count kv_count @ map pair_line es1
             @ (if can_print (stdout_encodes w)
                     (PairLine (text_of Strict kb) (VStr (text_of Replace vb)))
                then PairLine (text_of Strict kb) (VStr (text_of Replace vb))
                       # map pair_line es2
                else [ParseErrorLine UnicodeEncodeError])
         \<and> raised (inspect_gguf_raw w path) = None"
proof -
  have ok: "scalar_ok (read_cap w) (Scalar kb 8 vb)"
    using assms(7,8) by (simp add: scalar_ok_def)
  have ln: "pair_line (Scalar kb 8 vb) = PairLine (text_of Strict kb) (VStr (text_of Replace vb))"
    by (simp add: pair_line_def value_of_def)
  show ?thesis
    using entry_between_walk [OF assms(1-5) ok assms(6,10,11)] not_utf8_replaced [OF assms(9)]
    by (simp only: ln replace_Inr replace_replaces simp_thms)
qed

theorem invalid_string_value_replaced_witness:
  "bytes_decode Replace [104, 255, 105] = Inr [104, 65533, 105]
   \<and> replaces [104, 255, 105] [104, 65533, 105]
   \<and> printed (inspect_gguf_raw (world_with ''m.gguf'' bad_string_file unknown_quant)
        (pystr_of ''m.gguf''))
     = [RawModeBanner, VersionLine 3, TensorCountLine 0, KVCountLine 3, MetadataBanner,
        PairLine [97] (VInt 7), PairLine [115] (VStr [104, 65533, 105]),
        PairLine [98] (VBool True)]
   \<and> raised (inspect_gguf_raw (world_with ''m.gguf'' bad_string_file unknown_quant)
        (pystr_of ''m.gguf'')) = None"
proof -
  let ?w = "world_with ''m.gguf'' bad_string_file unknown_quant"
  have 1: "fs ?w (pystr_of ''m.gguf'') = Some (Readable bad_string_file)"
    by (simp add: world_with_def)
  have 2: "header_ok 3 0 3"
    by (simp add: header_ok_def)
  have 3: "(3::int) = int (length [entry [97] (U32 7)] + 1 + length [entry [98] (Bool True)])"
    by simp
  have 4: "list_all (scalar_ok (read_cap ?w)) [entry [97] (U32 7)]"
    by (simp add: check_defs entry_def length_le_bytes)
  have 5: "list_all (scalar_ok (read_cap ?w)) [entry [98] (Bool True)]"
    by (simp add: check_defs entry_def)
  have 6: "key_ok (read_cap ?w) [115]"
    by (simp add: check_defs)
  have 7: "servable (read_cap ?w) (int (length [104, 255, 105 :: byte]))"
    by (simp add: check_defs)
  have 8: "\<not> is_utf8 [104, 255, 105]"
    unfolding is_utf8_valid by (simp add: check_defs)
  have 9: "text_of Replace [104, 255, 105] = [104, 65533, 105]"
    "text_of Strict [115] = [115]"
    by (simp_all add: print_defs)
  have 10: "map pair_line [entry [97] (U32 7)] = [PairLine [97] (VInt 7)]"
    "map pair_line [entry [98] (Bool True)] = [PairLine [98] (VBool True)]"
    by (simp_all add: print_defs entry_def le_bytes_numeral)
  have 11: "list_all (can_print (stdout_encodes ?w)) (map pair_line [entry [97] (U32 7)])"
    "list_all (can_print (stdout_encodes ?w)) (map pair_line [entry [98] (Bool True)])"
    unfolding 10 by (simp_all add: stdout_defs)
  have 12: "can_print (stdout_encodes ?w) (PairLine [115] (VStr [104, 65533, 105]))"
    by (simp add: stdout_defs world_with_def)
  have 13: "map unat [104, 255, 105 :: byte] = [104, 255, 105]"
    by simp
  have 14: "header_lines 3 0 3 @ [PairLine [97] (VInt 7)]
        @ [PairLine [115] (VStr [104, 65533, 105]), PairLine [98] (VBool True)]
      = [RawModeBanner, VersionLine 3, TensorCountLine 0, KVCountLine 3, MetadataBanner,
         PairLine [97] (VInt 7), PairLine [115] (VStr [104, 65533, 105]),
         PairLine [98] (VBool True)]"
    by (simp add: header_lines_def)
  show ?thesis
    using invalid_string_value_replaced [OF 1 bad_string_file_def 2 3 4 5 6 7 8 11]
    by (simp only: 9 10 12 13 14 if_True simp_thms)
qed

text \<open>
  The claim as it was stated fails where the standard output cannot encode U+FFFD. On
  \<open>bad_string_file\<close> with a standard output in Latin-1, the value of \<open>s\<close> is decoded
  to a text with U+FFFD, and the reader prints the pair of \<open>a\<close>, then the line of the
  \<^verbatim>\<open>UnicodeEncodeError\<close>, and stops: the pair of \<open>s\<close> is not printed, and the entry \<open>b\<close>
  after it is not read.
\<close>

theorem unprintable_replacement_counterexample:
  "bytes_decode Replace [104, 255, 105] = Inr [104, 65533, 105]
   \<and> printed (inspect_gguf_raw (latin1 (world_with ''m.gguf'' bad_string_file unknown_quant))
        (pystr_of ''m.gguf''))
     = [RawModeBanner, VersionLine 3, TensorCountLine 0, KVCountLine 3, MetadataBanner,
        PairLine [97] (VInt 7), ParseErrorLine UnicodeEncodeError]"
proof -
  let ?w = "latin1 (world_with ''m.gguf'' bad_string_file unknown_quant)"
  have 1: "fs ?w (pystr_of ''m.gguf'') = Some (Readable bad_string_file)"
    by (simp add: world_with_def latin1_def)
  have 2: "header_ok 3 0 3"
    by (simp add: header_ok_def)
  have 3: "(3::int) = int (length [entry [97] (U32 7)] + 1 + length [entry [98] (Bool True)])"
    by simp
  have 4: "list_all (scalar_ok (read_cap ?w)) [entry [97] (U32 7)]"
    by (simp add: check_defs entry_def length_le_bytes latin1_def)
  have 5: "list_all (scalar_ok (read_cap ?w)) [entry [98] (Bool True)]"
    by (simp add: check_defs entry_def latin1_def)
  have 6: "scalar_ok (read_cap ?w) (Scalar [115] 8 [104, 255, 105])"
    by (simp add: check_defs latin1_def)
  have 9: "pair_line (Scalar [115] 8 [104, 255, 105]) = PairLine [115] (VStr [104, 65533, 105])"
    by (simp add: print_defs)
  have 10: "map pair_line [entry [97] (U32 7)] = [PairLine [97] (VInt 7)]"
    "map pair_line [entry [98] (Bool True)] = [PairLine [98] (VBool True)]"
    by (simp_all add: print_defs entry_def le_bytes_numeral)
  have 11: "list_all (can_print (stdout_encodes ?w)) (map pair_line [entry [97] (U32 7)])"
    "list_all (can_print (stdout_encodes ?w)) (map pair_line [entry [98] (Bool True)])"
    unfolding 10 by (simp_all add: stdout_defs)
  have 12: "\<not> can_print (stdout_encodes ?w) (PairLine [115] (VStr [104, 65533, 105]))"
    by (simp add: stdout_defs world_with_def)
  have 13: "bytes_decode Replace [104, 255, 105] = Inr [104, 65533, 105]"
    by (simp add: print_defs)
  have 14: "header_lines 3 0 3 @ [PairLine [97] (VInt 7)] @ [ParseErrorLine UnicodeEncodeError]
      = [RawModeBanner, VersionLine 3, TensorCountLine 0, KVCountLine 3, MetadataBanner,
         PairLine [97] (VInt 7), ParseErrorLine UnicodeEncodeError]"
    by (simp add: header_lines_def)
  show ?thesis
    using entry_between_walk [OF 1 bad_string_file_def 2 3 4 6 5 11]
    by (simp only: 9 10 12 13 14 if_False simp_thms)
qed

text \<open>
  C7. An entry whose key bytes are not valid UTF-8, reached after scalar entries \<open>es\<close>
  whose pairs the standard output can encode, ends the walk: the decoding error is
  printed as the last line, after the pairs of \<open>es\<close>; no pair is printed for the entry,
  nothing after the key is read, and no exception leaves the function. (A string value
  with the same bytes is decoded with replacement, see C6.)
\<close>

theorem malformed_key_ends_walk:
  assumes "fs w path = Some (Readable content)"
    and "content = gguf_header version tensor_count kv_count @ enc_scalars es
           @ enc_key kb @ rest"
    and "header_ok version tensor_count kv_count"
    and "int (length es) < kv_count"
    and "list_all (scalar_ok (read_cap w)) es"
    and "servable (read_cap w) (int (length kb))"
    and "\<not> valid_utf8 kb"
    and "list_all (can_print (stdout_encodes w)) (map pair_line es)"
  shows "printed (inspect_gguf_raw w path)
           = header_lines version tensor_count kv_count @ map pair_line es
             @ [ParseErrorLine UnicodeDecodeError]
         \<and> raised (inspect_gguf_raw w path) = None
         \<and> bytes_read (inspect_gguf_raw w path) = length content - length rest"
proof -
  have "bytes_decode Strict kb = Inl UnicodeDecodeError"
    using assms(7) by (simp add: valid_utf8_def)
  then have p: "parse_kv (read_cap w) (enc_key kb @ rest) = (Inl UnicodeDecodeError, rest)"
    by (rule parse_kv_bad_key [OF assms(6)])
  show ?thesis
    using stop_walk [OF assms(1-5,8) p] by simp
qed

theorem malformed_key_ends_walk_witness:
  "printed (inspect_gguf_raw (world_with ''m.gguf'' bad_key_file unknown_quant)
      (pystr_of ''m.gguf''))
     = [RawModeBanner, VersionLine 3, TensorCountLine 0, KVCountLine 2, MetadataBanner,
        PairLine [97] (VInt 7), ParseErrorLine UnicodeDecodeError]
   \<and> raised (inspect_gguf_raw (world_with ''m.gguf'' bad_key_file unknown_quant)
      (pystr_of ''m.gguf'')) = None
   \<and> bytes_read (inspect_gguf_raw (world_with ''m.gguf'' bad_key_file unknown_quant)
        (pystr_of ''m.gguf'')) = 50"
proof -
  let ?w = "world_with ''m.gguf'' bad_key_file unknown_quant"
  have 1: "fs ?w (pystr_of ''m.gguf'') = Some (Readable bad_key_file)"
    by (simp add: world_with_def)
  have 2: "header_ok 3 0 2"
    by (simp add: header_ok_def)
  have 3: "int (length [entry [97] (U32 7)]) < 2"
    by simp
  have 4: "list_all (scalar_ok (read_cap ?w)) [entry [97] (U32 7)]"
    by (simp add: check_defs entry_def length_le_bytes)
  have 5: "servable (read_cap ?w) (int (length [255 :: byte]))"
    by (simp add: check_defs)
  have 6: "\<not> valid_utf8 [255]"
    by (simp add: check_defs)
  have 7: "header_lines 3 0 2 @ map pair_line [entry [97] (U32 7)]
        @ [ParseErrorLine UnicodeDecodeError]
      = [RawModeBanner, VersionLine 3, TensorCountLine 0, KVCountLine 2, MetadataBanner,
         PairLine [97] (VInt 7), ParseErrorLine UnicodeDecodeError]"
    by (simp add: print_defs entry_def le_bytes_numeral)
  have 8: "length bad_key_file - length [4, 0, 0, 0, 1, 0, 0, 0 :: byte] = 50"
    by (simp add: bad_key_file_def length_defs)
  have 9: "list_all (can_print (stdout_encodes ?w)) (map pair_line [entry [97] (U32 7)])"
    by (simp add: print_defs entry_def le_bytes_numeral stdout_defs)
  show ?thesis
    using malformed_key_ends_walk [OF 1 bad_key_file_def 2 3 4 5 6 9]
    by (simp only: 7 8)
qed

text \<open>
  C8. No exception should leave the inspection. When the library reads the file and
  the file has no \<^verbatim>\<open>general.architecture\<close> field, the lookup returns \<^verbatim>\<open>None\<close> and
  the attribute access on it, which is outside every \<^verbatim>\<open>try\<close>, raises: the run of the
  script on \<open>empty_model_file\<close> ends with an \<^verbatim>\<open>AttributeError\<close> after two lines of
  output.
\<close>

theorem attribute_error_escapes:
  "main (world_with ''m.gguf'' empty_model_file reads_without_architecture)
      [pystr_of ''inspect_architecture.py'', pystr_of ''m.gguf'']
     = \<lparr>printed = [InspectingLine (pystr_of ''m.gguf''), ArchBanner], bytes_read = 0,
        raised = Some AttributeError, opened = [pystr_of ''m.gguf'']\<rparr>"
proof -
  let ?w = "world_with ''m.gguf'' empty_model_file reads_without_architecture"
  let ?argv = "[pystr_of ''inspect_architecture.py'', pystr_of ''m.gguf'']"
  have 1: "target_path ?argv = pystr_of ''m.gguf''"
    by (simp add: target_path_def)
  have 2: "notice ?argv = []"
    by (simp add: notice_def)
  have 3: "path_exists ?w (pystr_of ''m.gguf'')"
    by (simp add: path_exists_def world_with_def)
  have 4: "GGUFReader ?w (pystr_of ''m.gguf'')
      = Inr \<lparr>reader_fields = [(pystr_of ''GGUF.version'', version_field)],
             reader_tensors = []\<rparr>"
    by (simp add: world_with_def reads_without_architecture_def)
  have 5: "get_field
       \<lparr>reader_fields = [(pystr_of ''GGUF.version'', version_field)], reader_tensors = []\<rparr>
       (pystr_of ''general.architecture'') = None"
    by (simp add: get_field_def pystr_of_def)
  have 6: "can_print (stdout_encodes ?w) (InspectingLine (pystr_of ''m.gguf''))"
    by (simp add: can_print_def encodable_def pystr_of_def)
  show ?thesis
    by (simp add: main_def 1 2 3 missing_architecture_escapes [OF 4 5 6])
qed

text \<open>
  C9, as amended. When the path to inspect (the first argument, or the default path)
  names nothing, the script calls neither the library nor \<^verbatim>\<open>open\<close> and reads nothing.
  If the standard output can encode the path, it prints that the file was not found
  and a hint, after the notice about the default path if there was no argument, and no
  exception is raised. If it cannot, the \<^verbatim>\<open>print\<close> of the path raises
  \<^verbatim>\<open>UnicodeEncodeError\<close>, outside any \<^verbatim>\<open>try\<close>: the exception leaves the script and
  neither the path nor the hint is printed.
\<close>

theorem missing_path_not_read:
  assumes "fs w (target_path argv) = None"
  shows "main w argv =
     (if encodable (stdout_encodes w) (target_path argv) then
        \<lparr>printed = notice argv @ [FileNotFoundLine (target_path argv), HintLine],
         bytes_read = 0, raised = None, opened = []\<rparr>
      else
        \<lparr>printed = notice argv, bytes_read = 0, raised = Some UnicodeEncodeError,
         opened = []\<rparr>)"
  using assms by (simp add: main_def path_exists_def say_notice can_print_def encodable_def)

theorem missing_path_not_read_witness:
  "main (world_with ''m.gguf'' empty_model_file unknown_quant)
      [pystr_of ''inspect_architecture.py'', pystr_of ''x.gguf'']
     = \<lparr>printed = [FileNotFoundLine (pystr_of ''x.gguf''), HintLine],
        bytes_read = 0, raised = None, opened = []\<rparr>"
proof -
  let ?w = "world_with ''m.gguf'' empty_model_file unknown_quant"
  let ?argv = "[pystr_of ''inspect_architecture.py'', pystr_of ''x.gguf'']"
  have 1: "target_path ?argv = pystr_of ''x.gguf''"
    by (simp add: target_path_def)
  have 2: "notice ?argv = []"
    by (simp add: notice_def)
  have 3: "fs ?w (target_path ?argv) = None"
    unfolding 1 by (simp add: world_with_def pystr_of_def)
  have 4: "encodable (stdout_encodes ?w) (pystr_of ''x.gguf'')"
    by (simp add: encodable_def pystr_of_def)
  show ?thesis
    using missing_path_not_read [OF 3] by (simp only: 1 2 4 append_Nil if_True)
qed

text \<open>
  The claim as it was stated fails when the path cannot be printed. The argument
  \<open>surrogate_path\<close> names nothing, and on a standard output in UTF-8 the script ends
  with a \<^verbatim>\<open>UnicodeEncodeError\<close> and has printed nothing.
\<close>

theorem unprintable_path_counterexample:
  "fs (world_with ''m.gguf'' empty_model_file unknown_quant) surrogate_path = None
   \<and> main (world_with ''m.gguf'' empty_model_file unknown_quant)
       [pystr_of ''inspect_architecture.py'', surrogate_path]
     = \<lparr>printed = [], bytes_read = 0, raised = Some UnicodeEncodeError, opened = []\<rparr>"
  by (simp add: main_def path_exists_def target_path_def notice_def world_with_def
      surrogate_path_def pystr_of_def can_print_def encodable_def scalar_value_def)

text \<open>
  C10, as amended. Let an entry, reached after scalar entries \<open>es\<close> whose pairs the
  standard output can encode, announce \<open>declared\<close> bytes for a string where only
  \<open>avail\<close>, fewer, remain in the file. Nowhere is the length of what was read compared
  with the length announced. If the string is the key, no pair is printed for the
  entry: the walk ends with the line of an exception, which is the refusal of the size
  (\<^verbatim>\<open>OverflowError\<close> above \<open>2^63 - 34\<close>, \<^verbatim>\<open>MemoryError\<close> above the memory there is),
  the decoding error of \<open>avail\<close>, or else the failure to unpack the type tag at the end
  of the file. If the string is the value (tag 8), the walk ends with the same refusal
  of the size; or, the size being served, with the line of the \<^verbatim>\<open>UnicodeEncodeError\<close>
  of a text that the standard output cannot encode; or else the pair is printed with
  \<open>avail\<close> decoded under the replacing handler, and a further announced entry ends the
  walk with the unpack failure. No exception leaves the function.
\<close>

theorem short_string_reads:
  assumes "fs w path = Some (Readable content)"
    and "header_ok version tensor_count kv_count"
    and "int (length es) < kv_count"
    and "list_all (scalar_ok (read_cap w)) es"
    and "list_all (can_print (stdout_encodes w)) (map pair_line es)"
    and "int (length avail) < declared" "declared < 2 ^ 64"
  shows "(content = gguf_header version tensor_count kv_count @ enc_scalars es
            @ le_bytes 8 declared @ avail \<longrightarrow>
          printed (inspect_gguf_raw w path)
            = header_lines version tensor_count kv_count @ map pair_line es
              @ [ParseErrorLine (short_key_error (read_cap w) declared avail)]
          \<and> raised (inspect_gguf_raw w path) = None)
       \<and> (content = gguf_header version tensor_count kv_count @ enc_scalars es
            @ enc_key kb @ le_bytes 4 8 @ le_bytes 8 declared @ avail
          \<and> key_ok (read_cap w) kb \<longrightarrow>
          printed (inspect_gguf_raw w path)
            = header_lines version tensor_count kv_count @ map pair_line es
              @ short_value_lines (read_cap w) (stdout_encodes w)
                  (kv_count = int (length es) + 1) kb declared avail
          \<and> raised (inspect_gguf_raw w path) = None)"
  using short_key_walk [OF assms(1) _ assms(2-7)]
    short_value_walk [OF assms(1) _ assms(2-7)]
  by blast

theorem short_string_reads_witness:
  "printed (inspect_gguf_raw (world_with ''k.gguf'' short_key_file unknown_quant)
      (pystr_of ''k.gguf''))
     = [RawModeBanner, VersionLine 3, TensorCountLine 0, KVCountLine 1, MetadataBanner,
        ParseErrorLine StructError]
   \<and> printed (inspect_gguf_raw (world_with ''v.gguf'' short_value_file unknown_quant)
      (pystr_of ''v.gguf''))
     = [RawModeBanner, VersionLine 3, TensorCountLine 0, KVCountLine 2, MetadataBanner,
        PairLine [107] (VStr [97, 98]), ParseErrorLine StructError]
   \<and> raised (inspect_gguf_raw (world_with ''v.gguf'' short_value_file unknown_quant)
      (pystr_of ''v.gguf'')) = None"
proof -
  let ?k = "world_with ''k.gguf'' short_key_file unknown_quant"
  let ?v = "world_with ''v.gguf'' short_value_file unknown_quant"
  have k1: "fs ?k (pystr_of ''k.gguf'') = Some (Readable short_key_file)"
    by (simp add: world_with_def)
  have v1: "fs ?v (pystr_of ''v.gguf'') = Some (Readable short_value_file)"
    by (simp add: world_with_def)
  have k2: "header_ok 3 0 1" and v2: "header_ok 3 0 2"
    by (simp_all add: header_ok_def)
  have k3: "int (length ([] :: scalar_entry list)) < 1"
    and v3: "int (length ([] :: scalar_entry list)) < 2"
    by simp_all
  have k4: "list_all (scalar_ok (read_cap ?k)) []" and v4: "list_all (scalar_ok (read_cap ?v)) []"
    by simp_all
  have k5: "list_all (can_print (stdout_encodes ?k)) (map pair_line [])"
    and v5: "list_all (can_print (stdout_encodes ?v)) (map pair_line [])"
    by simp_all
  have 5: "int (length [97, 98 :: byte]) < 5" "(5::int) < 2 ^ 64"
    by simp_all
  have v6: "key_ok (read_cap ?v) [107]"
    by (simp add: check_defs)
  have k7: "header_lines 3 0 1 @ map pair_line []
        @ [ParseErrorLine (short_key_error (read_cap ?k) 5 [97, 98])]
      = [RawModeBanner, VersionLine 3, TensorCountLine 0, KVCountLine 1, MetadataBanner,
         ParseErrorLine StructError]"
    by (simp add: header_lines_def short_key_error_def check_defs)
  have v7: "header_lines 3 0 2 @ map pair_line []
        @ short_value_lines (read_cap ?v) (stdout_encodes ?v)
            ((2::int) = int (length ([] :: scalar_entry list)) + 1) [107] 5 [97, 98]
      = [RawModeBanner, VersionLine 3, TensorCountLine 0, KVCountLine 2, MetadataBanner,
         PairLine [107] (VStr [97, 98]), ParseErrorLine StructError]"
    by (simp add: short_value_lines_def print_defs stdout_defs world_with_def bytes_max_def)
  have a: "printed (inspect_gguf_raw ?k (pystr_of ''k.gguf''))
      = header_lines 3 0 1 @ map pair_line []
        @ [ParseErrorLine (short_key_error (read_cap ?k) 5 [97, 98])]"
    using short_string_reads [OF k1 k2 k3 k4 k5 5] short_key_file_def by blast
  have b: "printed (inspect_gguf_raw ?v (pystr_of ''v.gguf''))
      = header_lines 3 0 2 @ map pair_line []
        @ short_value_lines (read_cap ?v) (stdout_encodes ?v)
            ((2::int) = int (length ([] :: scalar_entry list)) + 1) [107] 5 [97, 98]
    \<and> raised (inspect_gguf_raw ?v (pystr_of ''v.gguf'')) = None"
    using short_string_reads [OF v1 v2 v3 v4 v5 5, of "[107]"] short_value_file_def v6 by blast
  show ?thesis
    using a b by (simp only: k7 v7 simp_thms)
qed

text \<open>
  The claim as it was stated fails in each of these runs. On \<open>short_key_file\<close> the key
  announces five bytes and two are left: the reader prints the line of
  \<^verbatim>\<open>struct.error\<close> and no pair. On \<open>huge_value_file\<close> and \<open>big_value_file\<close> the value
  announces \<open>2^63 - 33\<close> bytes, and two megabytes where one can be had: the reader
  prints the line of \<^verbatim>\<open>OverflowError\<close>, of \<^verbatim>\<open>MemoryError\<close>, and no pair. On
  \<open>short_bad_value_file\<close> with a standard output in Latin-1 the two bytes that are left
  decode to a text with U+FFFD: the reader prints the line of \<^verbatim>\<open>UnicodeEncodeError\<close>
  and no pair.
\<close>

theorem short_string_counterexample:
  "printed (inspect_gguf_raw (world_with ''m.gguf'' short_key_file unknown_quant)
      (pystr_of ''m.gguf''))
     = header_lines 3 0 1 @ [ParseErrorLine StructError]
   \<and> printed (inspect_gguf_raw (world_with ''m.gguf'' huge_value_file unknown_quant)
      (pystr_of ''m.gguf''))
     = header_lines 3 0 1 @ [ParseErrorLine OverflowError]
   \<and> printed (inspect_gguf_raw (world_with ''m.gguf'' big_value_file unknown_quant)
      (pystr_of ''m.gguf''))
     = header_lines 3 0 1 @ [ParseErrorLine MemoryError]
   \<and> printed (inspect_gguf_raw (latin1 (world_with ''m.gguf'' short_bad_value_file unknown_quant))
      (pystr_of ''m.gguf''))
     = header_lines 3 0 1 @ [ParseErrorLine UnicodeEncodeError]"
proof -
  let ?p = "pystr_of ''m.gguf''"
  let ?k = "world_with ''m.gguf'' short_key_file unknown_quant"
  let ?h = "world_with ''m.gguf'' huge_value_file unknown_quant"
  let ?b = "world_with ''m.gguf'' big_value_file unknown_quant"
  let ?l = "latin1 (world_with ''m.gguf'' short_bad_value_file unknown_quant)"
  have f: "fs ?k ?p = Some (Readable short_key_file)"
    "fs ?h ?p = Some (Readable huge_value_file)"
    "fs ?b ?p = Some (Readable big_value_file)"
    "fs ?l ?p = Some (Readable short_bad_value_file)"
    by (simp_all add: world_with_def latin1_def)
  have 2: "header_ok 3 0 1"
    by (simp add: header_ok_def)
  have 3: "int (length ([] :: scalar_entry list)) < 1"
    by simp
  have 4: "list_all (scalar_ok cap) []" "list_all (can_print enc) (map pair_line [])"
    for cap enc
    by simp_all
  have 5: "int (length [97, 98 :: byte]) < 5" "(5::int) < 2 ^ 64"
    "int (length [97, 98 :: byte]) < 2 ^ 63 - 33" "(2 ^ 63 - 33 :: int) < 2 ^ 64"
    "int (length [97, 98 :: byte]) < 2 ^ 21" "(2 ^ 21 :: int) < 2 ^ 64"
    "int (length [97, 255 :: byte]) < 5"
    by simp_all
  have 6: "key_ok (read_cap ?h) [107]" "key_ok (read_cap ?b) [107]" "key_ok (read_cap ?l) [107]"
    by (simp_all add: check_defs latin1_def)
  have k: "short_key_error (read_cap ?k) 5 [97, 98] = StructError"
    by (simp add: short_key_error_def check_defs)
  have h: "short_value_lines (read_cap ?h) (stdout_encodes ?h)
        ((1::int) = int (length ([] :: scalar_entry list)) + 1) [107] (2 ^ 63 - 33) [97, 98]
      = [ParseErrorLine OverflowError]"
    by (simp add: short_value_lines_def bytes_max_def)
  have b: "short_value_lines (read_cap ?b) (stdout_encodes ?b)
        ((1::int) = int (length ([] :: scalar_entry list)) + 1) [107] (2 ^ 21) [97, 98]
      = [ParseErrorLine MemoryError]"
    by (simp add: short_value_lines_def bytes_max_def world_with_def)
  have l: "short_value_lines (read_cap ?l) (stdout_encodes ?l)
        ((1::int) = int (length ([] :: scalar_entry list)) + 1) [107] 5 [97, 255]
      = [ParseErrorLine UnicodeEncodeError]"
    by (simp add: short_value_lines_def bytes_max_def world_with_def print_defs stdout_defs)
  show ?thesis
    using short_key_walk [OF f(1) short_key_file_def 2 3 4 5(1,2)]
      short_value_walk [OF f(2) huge_value_file_def 2 3 4 5(3,4) 6(1)]
      short_value_walk [OF f(3) big_value_file_def 2 3 4 5(5,6) 6(2)]
      short_value_walk [OF f(4) short_bad_value_file_def 2 3 4 5(7,2) 6(3)]
    by (simp only: k h b l map_append list.map append_Nil append_Nil2 simp_thms)
qed

end
